theory Spec2Isabelle
  imports Complex_Main "HOL-Library.AList"
begin

section \<open>Theme engine: reconciliation of mode, presets and custom properties\<close>

text \<open>
  The development follows the TypeScript sources: \<^verbatim>\<open>utils/colors.ts\<close>,
  \<^verbatim>\<open>utils/preset-validation.ts\<close>, \<^verbatim>\<open>providers/UnifiedThemeProvider.tsx\<close> and the script
  text generated by \<^verbatim>\<open>components/UnifiedThemeScript.tsx\<close>.

  Conventions of the embedding.
  \<^item> A JavaScript string is a \<open>string\<close>; the strings considered are ASCII, so the white
    space of \<^verbatim>\<open>trim\<close> and of the regular-expression class \<^verbatim>\<open>\s\<close> is tab, line feed,
    vertical tab, form feed, carriage return and space.
  \<^item> \<^verbatim>\<open>localStorage\<close> is a partial map from keys to strings together with a flag saying
    whether access throws; the inline style of the document root is a partial map from
    custom-property names to values (\<^verbatim>\<open>setProperty\<close> stores, \<^verbatim>\<open>removeProperty\<close>
    deletes).
  \<^item> A value that TypeScript only casts (\<^verbatim>\<open>as Mode\<close>) is kept at the type it has at run
    time.
\<close>

subsection \<open>Strings\<close>

definition isWs :: "char \<Rightarrow> bool" where
  "isWs c = (c \<in> set [CHR 0x09, CHR 0x0A, CHR 0x0B, CHR 0x0C, CHR 0x0D, CHR '' ''])"

definition trim :: "string \<Rightarrow> string" where
  "trim s = rev (dropWhile isWs (rev (dropWhile isWs s)))"

definition startsWith :: "string \<Rightarrow> string \<Rightarrow> bool" where
  "startsWith s p = (take (length p) s = p)"

definition lowerChar :: "char \<Rightarrow> char" where
  "lowerChar c =
     (case map_of (zip ''ABCDEFGHIJKLMNOPQRSTUVWXYZ'' ''abcdefghijklmnopqrstuvwxyz'') c of
        Some d \<Rightarrow> d | None \<Rightarrow> c)"

definition toLowerCase :: "string \<Rightarrow> string" where
  "toLowerCase s = map lowerChar s"

definition isDigit :: "char \<Rightarrow> bool" where
  "isDigit c = (c \<in> set ''0123456789'')"

definition digitChar :: "nat \<Rightarrow> char" where
  "digitChar n = ''0123456789'' ! n"

definition digitVal :: "char \<Rightarrow> nat" where
  "digitVal c =
     (case map_of (zip ''0123456789'' [0, 1, 2, 3, 4, 5, 6, 7, 8, 9]) c of
        Some d \<Rightarrow> d | None \<Rightarrow> 0)"

definition hexDigitVal :: "char \<Rightarrow> nat option" where
  "hexDigitVal c =
     map_of (zip ''0123456789abcdef'' [0, 1, 2, 3, 4, 5, 6, 7, 8, 9, 10, 11, 12, 13, 14, 15])
       (lowerChar c)"

definition natOfDigits :: "string \<Rightarrow> nat" where
  "natOfDigits ds = foldl (\<lambda>a c. 10 * a + digitVal c) 0 ds"

text \<open>Decimal digits of a natural number, most significant first.\<close>

function showNat :: "nat \<Rightarrow> string" where
  "showNat n = (if n < 10 then [digitChar n] else showNat (n div 10) @ [digitChar (n mod 10)])"
  by pat_completeness auto
termination
  by (relation "measure id") auto

declare showNat.simps [simp del]

text \<open>
  \<^verbatim>\<open>split(/\s+/).filter(Boolean)\<close>: the maximal runs of characters that are not white space.
  Cutting at every white-space character and dropping the empty pieces gives the same
  list as cutting at every run of white space and dropping the empty pieces.
\<close>

fun splitAtWs :: "string \<Rightarrow> string list" where
  "splitAtWs [] = [[]]"
| "splitAtWs (c # cs) =
     (if isWs c then [] # splitAtWs cs
      else (case splitAtWs cs of w # ws \<Rightarrow> (c # w) # ws | [] \<Rightarrow> [[c]]))"

definition splitWsNonEmpty :: "string \<Rightarrow> string list" where
  "splitWsNonEmpty s = filter (\<lambda>w. w \<noteq> []) (splitAtWs s)"

text \<open>\<^verbatim>\<open>s.replace('#', '')\<close> with a string pattern: only the first occurrence goes.\<close>

fun removeFirst :: "char \<Rightarrow> string \<Rightarrow> string" where
  "removeFirst x [] = []"
| "removeFirst x (c # cs) = (if c = x then cs else c # removeFirst x cs)"

subsection \<open>Numbers\<close>

text \<open>
  A finite JavaScript number is modelled by an exact decimal \<open>Dec m e\<close>, the value
  \<open>m \<times> 10\<^sup>e\<close>; arithmetic on finite numbers is exact rational arithmetic. Rounding to
  binary64 is not modelled: \<^verbatim>\<open>parseFloat\<close> yields the exact value of the decimal literal
  and \<^verbatim>\<open>String(x)\<close> prints the exact value, by the rules of \<^verbatim>\<open>Number::toString\<close>.
  Reading a literal of at most 15 significant digits and printing it again gives in
  JavaScript the digits it gives here, and integers below \<open>2\<^sup>5\<^sup>3\<close> are exact in both.
  The quotients of \<^verbatim>\<open>rgbToHsl\<close> are exact here, so a value that lies on a half before
  \<^verbatim>\<open>Math.round\<close> may be rounded the other way by binary64 arithmetic. Negative zero is
  identified with zero (both print as \<^verbatim>\<open>0\<close>).
\<close>

datatype dec = Dec int int

fun dec_val :: "dec \<Rightarrow> rat" where
  "dec_val (Dec m e) = (if 0 \<le> e then of_int m * 10 ^ nat e else of_int m / 10 ^ nat (- e))"

datatype jsnum = NaN | Fin dec | PosInf | NegInf

definition numOfInt :: "int \<Rightarrow> jsnum" where
  "numOfInt i = Fin (Dec i 0)"

text \<open>Trailing zeros of the mantissa move into the exponent.\<close>

function norm_dec :: "int \<Rightarrow> int \<Rightarrow> int \<times> int" where
  "norm_dec m e =
     (if m = 0 then (0, 0)
      else if m mod 10 = 0 then norm_dec (m div 10) (e + 1)
      else (m, e))"
  by pat_completeness auto
termination
  by (relation "measure (\<lambda>(m, e). nat \<bar>m\<bar>)") auto

declare norm_dec.simps [simp del]

text \<open>
  \<^verbatim>\<open>Number::toString\<close> for a positive number \<open>m \<times> 10\<^sup>e\<close> whose mantissa has no trailing
  zero: with \<open>k\<close> the number of digits of \<open>m\<close> and \<open>n = k + e\<close>, the four cases of the
  language definition (integer, digits around the point, leading \<^verbatim>\<open>0.\<close>, exponent
  notation).
\<close>

definition showPos :: "nat \<Rightarrow> int \<Rightarrow> string" where
  "showPos m e =
     (let ds = showNat m; k = int (length ds); n = k + e
      in if k \<le> n \<and> n \<le> 21 then ds @ replicate (nat (n - k)) CHR ''0''
         else if 0 < n \<and> n \<le> 21 then take (nat n) ds @ ''.'' @ drop (nat n) ds
         else if - 6 < n \<and> n \<le> 0 then ''0.'' @ replicate (nat (- n)) CHR ''0'' @ ds
         else (let ex = n - 1;
                   sg = (if ex < 0 then ''-'' else ''+'');
                   es = showNat (nat \<bar>ex\<bar>)
               in if k = 1 then ds @ ''e'' @ sg @ es
                  else take 1 ds @ ''.'' @ drop 1 ds @ ''e'' @ sg @ es))"

definition numberToString :: "jsnum \<Rightarrow> string" where
  "numberToString x =
     (case x of
        NaN \<Rightarrow> ''NaN''
      | PosInf \<Rightarrow> ''Infinity''
      | NegInf \<Rightarrow> ''-Infinity''
      | Fin (Dec m e) \<Rightarrow>
          (case norm_dec m e of (m', e') \<Rightarrow>
             if m' = 0 then ''0''
             else if m' < 0 then ''-'' @ showPos (nat (- m')) e'
             else showPos (nat m') e'))"

text \<open>The exponent part of a decimal literal; without a digit there is no exponent part.\<close>

definition parseExponent :: "string \<Rightarrow> int" where
  "parseExponent r =
     (case r of
        [] \<Rightarrow> 0
      | c # t \<Rightarrow>
          if c = CHR ''e'' \<or> c = CHR ''E'' then
            (let neg = (case t of [] \<Rightarrow> False | d # _ \<Rightarrow> d = CHR ''-'');
                 u = (case t of [] \<Rightarrow> [] | d # v \<Rightarrow> if d = CHR ''-'' \<or> d = CHR ''+'' then v else t);
                 ds = takeWhile isDigit u
             in if ds = [] then 0
                else if neg then - int (natOfDigits ds) else int (natOfDigits ds))
          else 0)"

text \<open>
  \<^verbatim>\<open>parseFloat\<close>: leading white space is skipped and the longest prefix that is a decimal
  literal is read; anything after it is ignored; no such prefix gives NaN.
\<close>

definition parseFloat :: "string \<Rightarrow> jsnum" where
  "parseFloat str =
     (let s0 = dropWhile isWs str;
          neg = (case s0 of [] \<Rightarrow> False | c # _ \<Rightarrow> c = CHR ''-'');
          s1 = (case s0 of [] \<Rightarrow> [] | c # t \<Rightarrow> if c = CHR ''-'' \<or> c = CHR ''+'' then t else s0)
      in if startsWith s1 ''Infinity'' then (if neg then NegInf else PosInf)
         else
           (let d1 = takeWhile isDigit s1;
                r1 = dropWhile isDigit s1;
                d2 = (case r1 of [] \<Rightarrow> [] | c # t \<Rightarrow> if c = CHR ''.'' then takeWhile isDigit t else []);
                r2 = (case r1 of [] \<Rightarrow> [] | c # t \<Rightarrow> if c = CHR ''.'' then dropWhile isDigit t else r1)
            in if d1 = [] \<and> d2 = [] then NaN
               else
                 (let mant = int (natOfDigits (d1 @ d2))
                  in Fin (Dec (if neg then - mant else mant)
                              (parseExponent r2 - int (length d2))))))"

text \<open>\<^verbatim>\<open>x || 0\<close> on a number: NaN and zero are falsy.\<close>

definition orZero :: "jsnum \<Rightarrow> jsnum" where
  "orZero x =
     (case x of
        NaN \<Rightarrow> numOfInt 0
      | Fin d \<Rightarrow> if dec_val d = 0 then numOfInt 0 else Fin d
      | PosInf \<Rightarrow> PosInf
      | NegInf \<Rightarrow> NegInf)"

text \<open>\<^verbatim>\<open>Math.min\<close> and \<^verbatim>\<open>Math.max\<close> of two numbers.\<close>

fun mathMin :: "jsnum \<Rightarrow> jsnum \<Rightarrow> jsnum" where
  "mathMin NaN _ = NaN"
| "mathMin _ NaN = NaN"
| "mathMin NegInf _ = NegInf"
| "mathMin _ NegInf = NegInf"
| "mathMin PosInf y = y"
| "mathMin x PosInf = x"
| "mathMin (Fin a) (Fin b) = (if dec_val a \<le> dec_val b then Fin a else Fin b)"

fun mathMax :: "jsnum \<Rightarrow> jsnum \<Rightarrow> jsnum" where
  "mathMax NaN _ = NaN"
| "mathMax _ NaN = NaN"
| "mathMax PosInf _ = PosInf"
| "mathMax _ PosInf = PosInf"
| "mathMax NegInf y = y"
| "mathMax x NegInf = x"
| "mathMax (Fin a) (Fin b) = (if dec_val b \<le> dec_val a then Fin a else Fin b)"

text \<open>\<^verbatim>\<open>Math.round\<close> of a finite value: halves go up.\<close>

definition mathRound :: "rat \<Rightarrow> jsnum" where
  "mathRound x = numOfInt (floor (x + 1 / 2))"

subsection \<open>Colour utilities (\<^verbatim>\<open>utils/colors.ts\<close>)\<close>

text \<open>The fields \<^verbatim>\<open>h\<close>, \<^verbatim>\<open>s\<close>, \<^verbatim>\<open>l\<close> and \<^verbatim>\<open>r\<close>, \<^verbatim>\<open>g\<close>, \<^verbatim>\<open>b\<close> carry a prefix here.\<close>

record HSLColor =
  hsl_h :: jsnum
  hsl_s :: jsnum
  hsl_l :: jsnum

record RGBColor =
  rgb_r :: rat
  rgb_g :: rat
  rgb_b :: rat

text \<open>\<^verbatim>\<open>.replace(/hsl\(|\)/g, '')\<close>: every \<^verbatim>\<open>hsl(\<close> and every closing parenthesis goes.\<close>

fun stripHslWrapper :: "string \<Rightarrow> string" where
  "stripHslWrapper [] = []"
| "stripHslWrapper (c # cs) =
     (if startsWith (c # cs) ''hsl('' then stripHslWrapper (drop 3 cs)
      else if c = CHR '')'' then stripHslWrapper cs
      else c # stripHslWrapper cs)"

text \<open>\<^verbatim>\<open>.replace(/[,%]/g, ' ')\<close>.\<close>

definition commaPercentToSpace :: "string \<Rightarrow> string" where
  "commaPercentToSpace s = map (\<lambda>c. if c = CHR '','' \<or> c = CHR ''%'' then CHR '' '' else c) s"

definition clamp :: "jsnum \<Rightarrow> jsnum \<Rightarrow> jsnum \<Rightarrow> jsnum" where
  "clamp n lo hi = mathMin hi (mathMax lo n)"

definition parseHSL :: "string \<Rightarrow> HSLColor option" where
  "parseHSL hslString =
     (let cleaned = trim (commaPercentToSpace (stripHslWrapper hslString));
          parts = splitWsNonEmpty cleaned
      in if length parts \<noteq> 3 then None
         else
           (let h = orZero (parseFloat (parts ! 0));
                s = orZero (parseFloat (parts ! 1));
                l = orZero (parseFloat (parts ! 2))
            in Some \<lparr> hsl_h = mathMax (numOfInt 0) (mathMin (numOfInt 360) h),
                      hsl_s = mathMax (numOfInt 0) (mathMin (numOfInt 100) s),
                      hsl_l = mathMax (numOfInt 0) (mathMin (numOfInt 100) l) \<rparr>))"

text \<open>
  \<^verbatim>\<open>parseInt(s, 16)\<close>: leading white space, a sign and a \<^verbatim>\<open>0x\<close> prefix are skipped, then
  the longest run of hexadecimal digits is read; \<open>None\<close> is NaN.
\<close>

definition parseInt16 :: "string \<Rightarrow> int option" where
  "parseInt16 str =
     (let s0 = dropWhile isWs str;
          neg = (case s0 of [] \<Rightarrow> False | c # _ \<Rightarrow> c = CHR ''-'');
          s1 = (case s0 of [] \<Rightarrow> [] | c # t \<Rightarrow> if c = CHR ''-'' \<or> c = CHR ''+'' then t else s0);
          s2 = (if startsWith (toLowerCase s1) ''0x'' then drop 2 s1 else s1);
          ds = takeWhile (\<lambda>c. hexDigitVal c \<noteq> None) s2
      in if ds = [] then None
         else
           (let v = int (foldl (\<lambda>a c. 16 * a + (case hexDigitVal c of Some d \<Rightarrow> d | None \<Rightarrow> 0)) 0 ds)
            in Some (if neg then - v else v)))"

definition parseHex :: "string \<Rightarrow> RGBColor option" where
  "parseHex hexString =
     (let hex0 = removeFirst CHR ''#'' hexString;
          hex = (if length hex0 = 3 then concat (map (\<lambda>c. [c, c]) hex0) else hex0)
      in if length hex \<noteq> 6 then None
         else
           (case (parseInt16 (take 2 hex), parseInt16 (take 2 (drop 2 hex)),
                  parseInt16 (take 2 (drop 4 hex))) of
              (Some r, Some g, Some b) \<Rightarrow>
                Some \<lparr> rgb_r = of_int r, rgb_g = of_int g, rgb_b = of_int b \<rparr>
            | _ \<Rightarrow> None))"

text \<open>
  \<^verbatim>\<open>rgbToHsl\<close>. \<^verbatim>\<open>switch (max)\<close> takes the first of the cases \<^verbatim>\<open>r\<close>, \<^verbatim>\<open>g\<close>, \<^verbatim>\<open>b\<close>
  equal to \<^verbatim>\<open>max\<close>. The saturation is the one quotient whose divisor can be zero while
  \<^verbatim>\<open>diff\<close> is positive; JavaScript then yields \<^verbatim>\<open>Infinity\<close>, which \<^verbatim>\<open>Math.round\<close> keeps.
\<close>

definition rgbToHsl :: "RGBColor \<Rightarrow> HSLColor" where
  "rgbToHsl rgb =
     (let r = rgb_r rgb / 255;
          g = rgb_g rgb / 255;
          b = rgb_b rgb / 255;
          mx = max (max r g) b;
          mn = min (min r g) b;
          diff = mx - mn;
          l = (mx + mn) / 2
      in if diff \<noteq> 0 then
           (let den = (if l > 1 / 2 then 2 - mx - mn else mx + mn);
                h0 = (if mx = r then (g - b) / diff + (if g < b then 6 else 0)
                      else if mx = g then (b - r) / diff + 2
                      else (r - g) / diff + 4);
                h = h0 / 6
            in \<lparr> hsl_h = mathRound (h * 360),
                 hsl_s = (if den = 0 then PosInf else mathRound (diff / den * 100)),
                 hsl_l = mathRound (l * 100) \<rparr>)
         else \<lparr> hsl_h = mathRound (0 * 360), hsl_s = mathRound (0 * 100),
                hsl_l = mathRound (l * 100) \<rparr>)"

definition formatHSL :: "HSLColor \<Rightarrow> bool \<Rightarrow> string" where
  "formatHSL hsl includeHslWrapper =
     (let values = numberToString (hsl_h hsl) @ '' '' @ numberToString (hsl_s hsl) @ ''% ''
                   @ numberToString (hsl_l hsl) @ ''%''
      in if includeHslWrapper then ''hsl('' @ values @ '')'' else values)"

subsection \<open>The colour normaliser of the provider\<close>

text \<open>
  What the normaliser sees of the document: whether \<^verbatim>\<open>document\<close> is defined, and the
  computed \<^verbatim>\<open>color\<close> of a probe element whose \<^verbatim>\<open>style.color\<close> was set to a given
  string (\<open>None\<close> when probing throws). The channels that the pattern captures are
  runs of digits, so \<^verbatim>\<open>Number.isFinite\<close> holds of them.
\<close>

record dom_env =
  hasDocument :: bool
  computedColor :: "string \<Rightarrow> string option"

text \<open>A run of digits at the head of a string, and the rest; \<open>None\<close> without a digit.\<close>

definition scanDigits :: "string \<Rightarrow> (nat \<times> string) option" where
  "scanDigits s =
     (let ds = takeWhile isDigit s
      in if ds = [] then None else Some (natOfDigits ds, dropWhile isDigit s))"

definition expectChar :: "char \<Rightarrow> string \<Rightarrow> string option" where
  "expectChar x s = (case s of [] \<Rightarrow> None | c # t \<Rightarrow> if c = x then Some t else None)"

text \<open>\<^verbatim>\<open>/rgba?\((\d+),\s*(\d+),\s*(\d+)/i\<close> matched at the head of the string.\<close>

definition matchRgbHere :: "string \<Rightarrow> (nat \<times> nat \<times> nat) option" where
  "matchRgbHere s =
     (if toLowerCase (take 3 s) \<noteq> ''rgb'' then None
      else
        (let s1 = drop 3 s;
             s2 = (case s1 of [] \<Rightarrow> [] | c # t \<Rightarrow> if lowerChar c = CHR ''a'' then t else s1)
         in case expectChar CHR ''('' s2 of
              None \<Rightarrow> None
            | Some s3 \<Rightarrow>
                (case scanDigits s3 of
                   None \<Rightarrow> None
                 | Some (r, s4) \<Rightarrow>
                     (case expectChar CHR '','' s4 of
                        None \<Rightarrow> None
                      | Some s5 \<Rightarrow>
                          (case scanDigits (dropWhile isWs s5) of
                             None \<Rightarrow> None
                           | Some (g, s6) \<Rightarrow>
                               (case expectChar CHR '','' s6 of
                                  None \<Rightarrow> None
                                | Some s7 \<Rightarrow>
                                    (case scanDigits (dropWhile isWs s7) of
                                       None \<Rightarrow> None
                                     | Some (b, _) \<Rightarrow> Some (r, g, b))))))))"

text \<open>\<^verbatim>\<open>computed.match(...)\<close>: the leftmost position where the pattern matches.\<close>

fun matchRgb :: "string \<Rightarrow> (nat \<times> nat \<times> nat) option" where
  "matchRgb [] = matchRgbHere []"
| "matchRgb (c # cs) =
     (case matchRgbHere (c # cs) of Some m \<Rightarrow> Some m | None \<Rightarrow> matchRgb cs)"

definition normalizeColorValueToHslTriplet :: "dom_env \<Rightarrow> string \<Rightarrow> string" where
  "normalizeColorValueToHslTriplet env val =
     (let trimmed = trim val
      in case parseHSL trimmed of
           Some parsedHsl \<Rightarrow> formatHSL parsedHsl False
         | None \<Rightarrow>
             (case parseHex trimmed of
                Some parsedRgb \<Rightarrow> formatHSL (rgbToHsl parsedRgb) False
              | None \<Rightarrow>
                  if hasDocument env then
                    (if startsWith trimmed ''var('' then trimmed
                     else
                       (case computedColor env trimmed of
                          None \<Rightarrow> trimmed
                        | Some computed \<Rightarrow>
                            (case matchRgb computed of
                               Some (r, g, b) \<Rightarrow>
                                 formatHSL (rgbToHsl \<lparr> rgb_r = of_nat r, rgb_g = of_nat g,
                                                       rgb_b = of_nat b \<rparr>) False
                             | None \<Rightarrow> trimmed)))
                  else trimmed))"

subsection \<open>The colour normaliser inlined in the generated script\<close>

text \<open>
  \<^verbatim>\<open>/^\d+(?:\.\d+)?\s+\d+(?:\.\d+)?%\s+\d+(?:\.\d+)?%$/\<close>, read from left to right: a number is
  a run of digits, then a point only if a digit follows it.
\<close>

definition scanNumber :: "string \<Rightarrow> string option" where
  "scanNumber s =
     (if takeWhile isDigit s = [] then None
      else
        (let r = dropWhile isDigit s
         in case r of
              [] \<Rightarrow> Some r
            | c # t \<Rightarrow>
                if c = CHR ''.'' \<and> takeWhile isDigit t \<noteq> [] then Some (dropWhile isDigit t)
                else Some r))"

definition scanWs1 :: "string \<Rightarrow> string option" where
  "scanWs1 s = (case s of [] \<Rightarrow> None | c # t \<Rightarrow> if isWs c then Some (dropWhile isWs t) else None)"

definition isRawTriplet :: "string \<Rightarrow> bool" where
  "isRawTriplet s =
     (case scanNumber s of None \<Rightarrow> False | Some r1 \<Rightarrow>
      case scanWs1 r1 of None \<Rightarrow> False | Some r2 \<Rightarrow>
      case scanNumber r2 of None \<Rightarrow> False | Some r3 \<Rightarrow>
      case expectChar CHR ''%'' r3 of None \<Rightarrow> False | Some r4 \<Rightarrow>
      case scanWs1 r4 of None \<Rightarrow> False | Some r5 \<Rightarrow>
      case scanNumber r5 of None \<Rightarrow> False | Some r6 \<Rightarrow>
      expectChar CHR ''%'' r6 = Some [])"

text \<open>\<^verbatim>\<open>.replace(/hsl\(|\)/gi, '')\<close> and \<^verbatim>\<open>.replace(/rgb\(|\)/gi, '')\<close>: the wrapper in any case.\<close>

fun stripWrapperCI :: "string \<Rightarrow> string \<Rightarrow> string" where
  "stripWrapperCI w [] = []"
| "stripWrapperCI w (c # cs) =
     (if toLowerCase (take 4 (c # cs)) = w then stripWrapperCI w (drop 3 cs)
      else if c = CHR '')'' then stripWrapperCI w cs
      else c # stripWrapperCI w cs)"

text \<open>\<^verbatim>\<open>split(',')\<close>.\<close>

fun splitComma :: "string \<Rightarrow> string list" where
  "splitComma [] = [[]]"
| "splitComma (c # cs) =
     (if c = CHR '','' then [] # splitComma cs
      else (case splitComma cs of w # ws \<Rightarrow> (c # w) # ws | [] \<Rightarrow> [[c]]))"

text \<open>The value of a number known to be finite (here: the result of a clamp).\<close>

definition finiteVal :: "jsnum \<Rightarrow> rat" where
  "finiteVal x = (case x of Fin d \<Rightarrow> dec_val d | _ \<Rightarrow> 0)"

definition script_toTriplet :: "HSLColor \<Rightarrow> string" where
  "script_toTriplet hsl =
     numberToString (clamp (hsl_h hsl) (numOfInt 0) (numOfInt 360)) @ '' ''
     @ numberToString (clamp (hsl_s hsl) (numOfInt 0) (numOfInt 100)) @ ''% ''
     @ numberToString (clamp (hsl_l hsl) (numOfInt 0) (numOfInt 100)) @ ''%''"

definition script_hexToRgb :: "string \<Rightarrow> RGBColor option" where
  "script_hexToRgb hex =
     (let clean0 = trim (removeFirst CHR ''#'' hex);
          clean1 = (if length clean0 = 3 then concat (map (\<lambda>c. [c, c]) clean0) else clean0);
          clean = (if length clean1 = 8 then take 6 clean1 else clean1)
      in if length clean \<noteq> 6 then None
         else
           (case (parseInt16 (take 2 clean), parseInt16 (take 2 (drop 2 clean)),
                  parseInt16 (take 2 (drop 4 clean))) of
              (Some r, Some g, Some b) \<Rightarrow>
                Some \<lparr> rgb_r = of_int r, rgb_g = of_int g, rgb_b = of_int b \<rparr>
            | _ \<Rightarrow> None))"

text \<open>The three syntactic branches; \<open>None\<close> when the branch falls through to the next.\<close>

definition script_tryHsl :: "string \<Rightarrow> string option" where
  "script_tryHsl trimmed =
     (if startsWith (toLowerCase trimmed) ''hsl('' then
        (let cleaned = trim (commaPercentToSpace (stripWrapperCI ''hsl('' trimmed));
             parts = splitWsNonEmpty cleaned
         in if length parts = 3 then
              Some (script_toTriplet \<lparr> hsl_h = orZero (parseFloat (parts ! 0)),
                                        hsl_s = orZero (parseFloat (parts ! 1)),
                                        hsl_l = orZero (parseFloat (parts ! 2)) \<rparr>)
            else None)
      else None)"

definition script_tryRgb :: "string \<Rightarrow> string option" where
  "script_tryRgb trimmed =
     (if startsWith (toLowerCase trimmed) ''rgb('' then
        (let cleaned = trim (stripWrapperCI ''rgb('' trimmed);
             parts = map trim (splitComma cleaned)
         in if length parts = 3 then
              (let r = clamp (orZero (parseFloat (parts ! 0))) (numOfInt 0) (numOfInt 255);
                   g = clamp (orZero (parseFloat (parts ! 1))) (numOfInt 0) (numOfInt 255);
                   b = clamp (orZero (parseFloat (parts ! 2))) (numOfInt 0) (numOfInt 255)
               in Some (script_toTriplet (rgbToHsl \<lparr> rgb_r = finiteVal r, rgb_g = finiteVal g,
                                                      rgb_b = finiteVal b \<rparr>)))
            else None)
      else None)"

definition script_tryHex :: "string \<Rightarrow> string option" where
  "script_tryHex trimmed =
     (if take 1 trimmed = ''#'' then
        (case script_hexToRgb trimmed of
           Some rgb \<Rightarrow> Some (script_toTriplet (rgbToHsl rgb))
         | None \<Rightarrow> None)
      else None)"

text \<open>
  The inlined \<^verbatim>\<open>rgbToHsl(r, g, b)\<close> of the script has the body of \<^verbatim>\<open>rgbToHsl\<close> in
  \<^verbatim>\<open>utils/colors.ts\<close> line for line, so \<open>rgbToHsl\<close> stands for both.
\<close>

definition script_normalizeColorValueToHslTriplet :: "dom_env \<Rightarrow> string \<Rightarrow> string" where
  "script_normalizeColorValueToHslTriplet env val =
     (if val = [] then val
      else
        (let trimmed = trim val
         in if trimmed = [] then val
            else if startsWith trimmed ''var('' then trimmed
            else if isRawTriplet trimmed then trimmed
            else
              (case script_tryHsl trimmed of Some t \<Rightarrow> t | None \<Rightarrow>
               case script_tryRgb trimmed of Some t \<Rightarrow> t | None \<Rightarrow>
               case script_tryHex trimmed of Some t \<Rightarrow> t | None \<Rightarrow>
               (case computedColor env trimmed of
                  None \<Rightarrow> val
                | Some computed \<Rightarrow>
                    if computed = [] then val
                    else
                      (case matchRgb computed of
                         Some (r, g, b) \<Rightarrow>
                           (let r' = clamp (orZero (numOfInt (int r))) (numOfInt 0) (numOfInt 255);
                                g' = clamp (orZero (numOfInt (int g))) (numOfInt 0) (numOfInt 255);
                                b' = clamp (orZero (numOfInt (int b))) (numOfInt 0) (numOfInt 255)
                            in script_toTriplet (rgbToHsl \<lparr> rgb_r = finiteVal r',
                                 rgb_g = finiteVal g', rgb_b = finiteVal b' \<rparr>))
                       | None \<Rightarrow> val)))))"

subsection \<open>Custom properties on the document root\<close>

type_synonym style = "string \<rightharpoonup> string"

definition setProperty :: "style \<Rightarrow> string \<Rightarrow> string \<Rightarrow> style" where
  "setProperty rs name v = rs(name \<mapsto> v)"

definition removeProperty :: "style \<Rightarrow> string \<Rightarrow> style" where
  "removeProperty rs name = rs(name := None)"

text \<open>\<^verbatim>\<open>CSS_PROPERTY_CATEGORIES\<close> (\<^verbatim>\<open>types/index.ts\<close>); the script inlines the same lists.\<close>

definition category_colors :: "string list" where
  "category_colors =
     [''background'', ''foreground'', ''card'', ''card-foreground'', ''popover'',
      ''popover-foreground'', ''primary'', ''primary-foreground'', ''secondary'',
      ''secondary-foreground'', ''muted'', ''muted-foreground'', ''accent'',
      ''accent-foreground'', ''destructive'', ''destructive-foreground'', ''border'',
      ''input'', ''ring'', ''chart-1'', ''chart-2'', ''chart-3'', ''chart-4'', ''chart-5'',
      ''sidebar'', ''sidebar-foreground'', ''sidebar-primary'', ''sidebar-primary-foreground'',
      ''sidebar-accent'', ''sidebar-accent-foreground'', ''sidebar-border'', ''sidebar-ring'',
      ''accent-info'', ''accent-info-foreground'', ''accent-success'',
      ''accent-success-foreground'', ''accent-warning'', ''accent-warning-foreground'',
      ''accent-danger'', ''accent-danger-foreground'', ''accent-brand'',
      ''accent-brand-foreground'', ''accent-feature'', ''accent-feature-foreground'',
      ''accent-highlight'', ''accent-highlight-foreground'']"

definition category_typography :: "string list" where
  "category_typography = [''font-sans'', ''font-serif'', ''font-mono'']"

definition category_layout :: "string list" where
  "category_layout = [''radius'']"

definition category_shadows :: "string list" where
  "category_shadows =
     [''shadow-color'', ''shadow-opacity'', ''shadow-blur'', ''shadow-spread'',
      ''shadow-offset-x'', ''shadow-offset-y'']"

definition category_spacing :: "string list" where
  "category_spacing = [''letter-spacing'', ''spacing'']"

definition allCategories :: "string list" where
  "allCategories =
     category_colors @ category_typography @ category_layout @ category_shadows
     @ category_spacing"

definition defaultValues :: "string \<rightharpoonup> string" where
  "defaultValues = [''spacing'' \<mapsto> ''0.25rem'', ''letter-spacing'' \<mapsto> ''normal'']"

definition fontProperties :: "string list" where
  "fontProperties = [''font-sans'', ''font-serif'', ''font-mono'']"

definition cssVar :: "string \<Rightarrow> string" where
  "cssVar prop = ''--'' @ prop"

text \<open>A string-valued entry of a property map is truthy when present and not empty.\<close>

definition truthyStr :: "string option \<Rightarrow> bool" where
  "truthyStr v = (case v of None \<Rightarrow> False | Some x \<Rightarrow> x \<noteq> [])"

subsection \<open>The property applicator of the provider (\<^verbatim>\<open>applyPresetColors\<close>)\<close>

text \<open>
  \<^verbatim>\<open>ThemePreset["colors"]\<close>: the two mode maps. The applicator tests \<^verbatim>\<open>preset[mode]\<close>
  for absence, so each map is optional here. The maps are objects that the caller
  keeps, and the applicator assigns into one of them; it therefore returns the preset
  as it is after the call, next to the new style of the root.
\<close>

record preset_colors =
  light :: "(string \<rightharpoonup> string) option"
  dark :: "(string \<rightharpoonup> string) option"

datatype resolved_mode = Light | Dark

fun modeColors :: "preset_colors \<Rightarrow> resolved_mode \<Rightarrow> (string \<rightharpoonup> string) option" where
  "modeColors p Light = light p"
| "modeColors p Dark = dark p"

fun setModeColors :: "preset_colors \<Rightarrow> resolved_mode \<Rightarrow> (string \<rightharpoonup> string) \<Rightarrow> preset_colors" where
  "setModeColors p Light c = p\<lparr>light := Some c\<rparr>"
| "setModeColors p Dark c = p\<lparr>dark := Some c\<rparr>"

fun otherMode :: "resolved_mode \<Rightarrow> resolved_mode" where
  "otherMode Light = Dark"
| "otherMode Dark = Light"

text \<open>The loop "clear all properties to prevent leftover values".\<close>

definition clearAll :: "style \<Rightarrow> style" where
  "clearAll rs = foldl (\<lambda>r prop. removeProperty r (cssVar prop)) rs allCategories"

text \<open>The body of the font loop: \<^verbatim>\<open>!(fontProp in colors) && fontProp in otherModeColors\<close>.\<close>

definition inheritFont ::
  "(string \<rightharpoonup> string) \<Rightarrow> (string \<rightharpoonup> string) \<Rightarrow> string \<Rightarrow> (string \<rightharpoonup> string)" where
  "inheritFont otherModeColors colors fontProp =
     (if colors fontProp = None \<and> otherModeColors fontProp \<noteq> None
      then colors(fontProp := otherModeColors fontProp)
      else colors)"

definition inheritFonts ::
  "(string \<rightharpoonup> string) option \<Rightarrow> (string \<rightharpoonup> string) \<Rightarrow> (string \<rightharpoonup> string)" where
  "inheritFonts otherModeColors colors =
     (case otherModeColors of
        None \<Rightarrow> colors
      | Some oc \<Rightarrow> foldl (inheritFont oc) colors fontProperties)"

text \<open>The body of the loop "apply all CSS properties with defaults for missing ones".\<close>

definition applyProp :: "dom_env \<Rightarrow> (string \<rightharpoonup> string) \<Rightarrow> style \<Rightarrow> string \<Rightarrow> style" where
  "applyProp env colors rs prop =
     (let value0 = colors prop;
          value1 = (if \<not> truthyStr value0 \<and> truthyStr (defaultValues prop)
                    then defaultValues prop else value0)
      in case value1 of
           None \<Rightarrow> rs
         | Some v \<Rightarrow>
             if v = [] then rs
             else
               (let v' = (if prop \<in> set category_colors \<or> prop = ''shadow-color''
                          then normalizeColorValueToHslTriplet env v else v)
                in setProperty rs (cssVar prop) v'))"

definition applyPresetColors ::
  "dom_env \<Rightarrow> preset_colors option \<Rightarrow> resolved_mode \<Rightarrow> style \<Rightarrow> preset_colors option \<times> style" where
  "applyPresetColors env preset m rs =
     (case preset of
        None \<Rightarrow> (None, rs)
      | Some p \<Rightarrow>
          (case modeColors p m of
             None \<Rightarrow> (Some p, rs)
           | Some colors \<Rightarrow>
               (let rs1 = clearAll rs;
                    colors' = inheritFonts (modeColors p (otherMode m)) colors;
                    rs2 = foldl (applyProp env colors') rs1 allCategories
                in (Some (setModeColors p m colors'), rs2))))"

subsection \<open>The property applicator of the generated script\<close>

definition script_applyProp :: "dom_env \<Rightarrow> (string \<rightharpoonup> string) \<Rightarrow> style \<Rightarrow> string \<Rightarrow> style" where
  "script_applyProp env colors rs prop =
     (let value0 = colors prop;
          value1 = (if \<not> truthyStr value0 \<and> truthyStr (defaultValues prop)
                    then defaultValues prop else value0)
      in case value1 of
           None \<Rightarrow> rs
         | Some v \<Rightarrow>
             if v = [] then rs
             else
               (let v' = (if prop \<in> set category_colors \<or> prop = ''shadow-color''
                          then script_normalizeColorValueToHslTriplet env v else v)
                in setProperty rs (cssVar prop) v'))"

definition script_applyPresetProperties ::
  "dom_env \<Rightarrow> (string \<rightharpoonup> string) option \<Rightarrow> style \<Rightarrow> style" where
  "script_applyPresetProperties env colors rs =
     (case colors of
        None \<Rightarrow> rs
      | Some c \<Rightarrow> foldl (script_applyProp env c) (clearAll rs) allCategories)"

text \<open>
  The font loop of the script's preset restoration:
  \<^verbatim>\<open>!colors[fontProp] && otherModeColors[fontProp]\<close>.
\<close>

definition script_inheritFont ::
  "(string \<rightharpoonup> string) \<Rightarrow> (string \<rightharpoonup> string) \<Rightarrow> string \<Rightarrow> (string \<rightharpoonup> string)" where
  "script_inheritFont otherModeColors colors fontProp =
     (if \<not> truthyStr (colors fontProp) \<and> truthyStr (otherModeColors fontProp)
      then colors(fontProp := otherModeColors fontProp)
      else colors)"

text \<open>The last block of the script, from the parsed preset and the mode it read back.\<close>

definition script_restorePreset ::
  "dom_env \<Rightarrow> preset_colors option \<Rightarrow> resolved_mode \<Rightarrow> style \<Rightarrow> style" where
  "script_restorePreset env presetColors m rs =
     (case presetColors of
        None \<Rightarrow> rs
      | Some p \<Rightarrow>
          (case modeColors p m of
             None \<Rightarrow> rs
           | Some colors \<Rightarrow>
               (let colors' =
                      (case modeColors p (otherMode m) of
                         None \<Rightarrow> colors
                       | Some oc \<Rightarrow> foldl (script_inheritFont oc) colors fontProperties)
                in script_applyPresetProperties env (Some colors') rs)))"

subsection \<open>Auxiliary notions for the statements about the applicator\<close>

text \<open>
  The value that one round of the write loop stores for a property, \<open>None\<close> when the
  round writes nothing.
\<close>

definition propValue :: "dom_env \<Rightarrow> (string \<rightharpoonup> string) \<Rightarrow> string \<Rightarrow> string option" where
  "propValue env colors prop =
     (let value0 = colors prop;
          value1 = (if \<not> truthyStr value0 \<and> truthyStr (defaultValues prop)
                    then defaultValues prop else value0)
      in case value1 of
           None \<Rightarrow> None
         | Some v \<Rightarrow>
             if v = [] then None
             else Some (if prop \<in> set category_colors \<or> prop = ''shadow-color''
                        then normalizeColorValueToHslTriplet env v else v))"

text \<open>
  The resolved value of a property for a preset and a mode, in the words of the
  specification of the applicator: the entry of the mode map; for a font property that
  the mode map lacks, the entry of the other mode's map; failing these the default; a
  property without any of them has no resolved value. An empty string is no value.
\<close>

definition resolvedValue :: "preset_colors \<Rightarrow> resolved_mode \<Rightarrow> string \<Rightarrow> string option" where
  "resolvedValue p m prop =
     (case modeColors p m of
        None \<Rightarrow> None
      | Some colors \<Rightarrow>
          (let v0 = (if colors prop = None \<and> prop \<in> set fontProperties
                     then (case modeColors p (otherMode m) of None \<Rightarrow> None | Some oc \<Rightarrow> oc prop)
                     else colors prop);
               v1 = (if truthyStr v0 then v0 else defaultValues prop)
           in if truthyStr v1 then v1 else None))"

text \<open>Colour properties and \<^verbatim>\<open>shadow-color\<close> are written normalised, the others as they are.\<close>

definition writtenValue :: "dom_env \<Rightarrow> string \<Rightarrow> string \<Rightarrow> string" where
  "writtenValue env prop v =
     (if prop \<in> set category_colors \<or> prop = ''shadow-color''
      then normalizeColorValueToHslTriplet env v else v)"

text \<open>The entry of a preset's mode map under a key, \<open>None\<close> when preset, map or entry is absent.\<close>

definition presetEntry :: "preset_colors option \<Rightarrow> resolved_mode \<Rightarrow> string \<Rightarrow> string option" where
  "presetEntry preset m k =
     (case preset of
        None \<Rightarrow> None
      | Some p \<Rightarrow> (case modeColors p m of None \<Rightarrow> None | Some c \<Rightarrow> c k))"

text \<open>A document in which probing a colour throws.\<close>

definition probeFails :: dom_env where
  "probeFails = \<lparr> hasDocument = True, computedColor = (\<lambda>_. None) \<rparr>"

subsection \<open>Regular expressions used as tests\<close>

text \<open>
  The patterns that the sources apply with \<^verbatim>\<open>test\<close> are anchored at both ends; they are
  kept as data and matched by derivatives. A pattern with the flag \<^verbatim>\<open>i\<close> is written in
  lower case and matched against the lower-cased string.
\<close>

datatype rx = Nul | Eps | Cls "char list" | Seq rx rx | Alt rx rx | Star rx

fun nullable :: "rx \<Rightarrow> bool" where
  "nullable Nul = False"
| "nullable Eps = True"
| "nullable (Cls cs) = False"
| "nullable (Seq r1 r2) = (nullable r1 \<and> nullable r2)"
| "nullable (Alt r1 r2) = (nullable r1 \<or> nullable r2)"
| "nullable (Star r) = True"

fun deriv :: "char \<Rightarrow> rx \<Rightarrow> rx" where
  "deriv c Nul = Nul"
| "deriv c Eps = Nul"
| "deriv c (Cls cs) = (if c \<in> set cs then Eps else Nul)"
| "deriv c (Seq r1 r2) =
     (if nullable r1 then Alt (Seq (deriv c r1) r2) (deriv c r2) else Seq (deriv c r1) r2)"
| "deriv c (Alt r1 r2) = Alt (deriv c r1) (deriv c r2)"
| "deriv c (Star r) = Seq (deriv c r) (Star r)"

definition rxMatch :: "rx \<Rightarrow> string \<Rightarrow> bool" where
  "rxMatch r s = nullable (foldl (\<lambda>q c. deriv c q) r s)"

definition rxSeqs :: "rx list \<Rightarrow> rx" where
  "rxSeqs rs = foldr Seq rs Eps"

definition rxStr :: "string \<Rightarrow> rx" where
  "rxStr s = rxSeqs (map (\<lambda>c. Cls [c]) s)"

definition rxPlus :: "rx \<Rightarrow> rx" where
  "rxPlus r = Seq r (Star r)"

definition rxRep :: "nat \<Rightarrow> rx \<Rightarrow> rx" where
  "rxRep n r = rxSeqs (replicate n r)"

definition rxDigit :: rx where
  "rxDigit = Cls ''0123456789''"

definition rxWsStar :: rx where
  "rxWsStar = Star (Cls [CHR 0x09, CHR 0x0A, CHR 0x0B, CHR 0x0C, CHR 0x0D, CHR '' ''])"

subsection \<open>Preset validation (\<^verbatim>\<open>utils/preset-validation.ts\<close>)\<close>

text \<open>
  A candidate preset is an arbitrary value. Objects are lists of entries in enumeration
  order, with distinct keys; arrays and functions are not considered.
\<close>

datatype jsval =
  JUndefined | JNull | JBool bool | JNum jsnum | JStr string | JObj "(string \<times> jsval) list"

fun truthy :: "jsval \<Rightarrow> bool" where
  "truthy JUndefined = False"
| "truthy JNull = False"
| "truthy (JBool b) = b"
| "truthy (JNum NaN) = False"
| "truthy (JNum (Fin d)) = (dec_val d \<noteq> 0)"
| "truthy (JNum _) = True"
| "truthy (JStr s) = (s \<noteq> [])"
| "truthy (JObj _) = True"

fun typeOf :: "jsval \<Rightarrow> string" where
  "typeOf JUndefined = ''undefined''"
| "typeOf JNull = ''object''"
| "typeOf (JBool _) = ''boolean''"
| "typeOf (JNum _) = ''number''"
| "typeOf (JStr _) = ''string''"
| "typeOf (JObj _) = ''object''"

text \<open>Property access \<^verbatim>\<open>v[k]\<close> on a value that is not null or undefined.\<close>

fun getProp :: "jsval \<Rightarrow> string \<Rightarrow> jsval" where
  "getProp (JObj kvs) k = (case map_of kvs k of Some v \<Rightarrow> v | None \<Rightarrow> JUndefined)"
| "getProp _ k = JUndefined"

text \<open>\<^verbatim>\<open>Object.entries\<close>; a string has its characters under their indices.\<close>

fun objectEntries :: "jsval \<Rightarrow> (string \<times> jsval) list" where
  "objectEntries (JObj kvs) = kvs"
| "objectEntries (JStr s) = zip (map showNat [0 ..< length s]) (map (\<lambda>c. JStr [c]) s)"
| "objectEntries _ = []"

record ValidationResult =
  isValid :: bool
  errors :: "string list"
  warnings :: "string list"

definition REQUIRED_PROPERTIES :: "string list" where
  "REQUIRED_PROPERTIES =
     [''background'', ''foreground'', ''primary'', ''primary-foreground'', ''secondary'',
      ''secondary-foreground'', ''card'', ''card-foreground'']"

definition RECOMMENDED_PROPERTIES :: "string list" where
  "RECOMMENDED_PROPERTIES =
     [''border'', ''input'', ''ring'', ''muted'', ''muted-foreground'', ''accent'',
      ''accent-foreground'', ''destructive'', ''destructive-foreground'', ''popover'',
      ''popover-foreground'']"

text \<open>The five syntax tests of \<^verbatim>\<open>isValidColorValue\<close>, each on the trimmed value.\<close>

definition looksHex :: "string \<Rightarrow> bool" where
  "looksHex trimmed =
     rxMatch (Seq (Cls ''#'')
                (Alt (rxRep 3 (Cls ''0123456789abcdef''))
                  (Alt (rxRep 6 (Cls ''0123456789abcdef''))
                       (rxRep 8 (Cls ''0123456789abcdef'')))))
       (toLowerCase trimmed)"

definition looksHsl :: "string \<Rightarrow> bool" where
  "looksHsl trimmed =
     rxMatch (rxSeqs [rxStr ''hsl('', rxWsStar, rxPlus rxDigit, rxWsStar, Cls '','', rxWsStar,
                      rxPlus rxDigit, Cls ''%'', rxWsStar, Cls '','', rxWsStar,
                      rxPlus rxDigit, Cls ''%'', rxWsStar, Cls '')''])
       (toLowerCase trimmed)"

definition looksRgb :: "string \<Rightarrow> bool" where
  "looksRgb trimmed =
     rxMatch (rxSeqs [rxStr ''rgb('', rxWsStar, rxPlus rxDigit, rxWsStar, Cls '','', rxWsStar,
                      rxPlus rxDigit, rxWsStar, Cls '','', rxWsStar,
                      rxPlus rxDigit, rxWsStar, Cls '')''])
       (toLowerCase trimmed)"

definition looksVar :: "string \<Rightarrow> bool" where
  "looksVar trimmed =
     rxMatch (rxSeqs [rxStr ''var(--'',
                      rxPlus (Cls ''abcdefghijklmnopqrstuvwxyz0123456789_-''), Cls '')''])
       (toLowerCase trimmed)"

definition cssColors :: "string list" where
  "cssColors =
     [''transparent'', ''inherit'', ''currentcolor'', ''black'', ''white'', ''red'', ''green'',
      ''blue'', ''yellow'', ''orange'', ''purple'', ''pink'', ''gray'', ''grey'']"

definition isValidColorValue :: "string \<Rightarrow> bool" where
  "isValidColorValue val =
     (let trimmed = trim val
      in if looksHex trimmed then True
         else if looksHsl trimmed then True
         else if looksRgb trimmed then True
         else if looksVar trimmed then True
         else if toLowerCase trimmed \<in> set cssColors then True
         else True)"

text \<open>
  The colour syntaxes that the validator names: a value is recognised when one of the
  five tests succeeds.
\<close>

definition recognisedColorSyntax :: "string \<Rightarrow> bool" where
  "recognisedColorSyntax val =
     (let trimmed = trim val
      in looksHex trimmed \<or> looksHsl trimmed \<or> looksRgb trimmed \<or> looksVar trimmed
         \<or> toLowerCase trimmed \<in> set cssColors)"

definition dquote :: string where
  "dquote = [CHR 0x22]"

definition messagePrefix :: "string option \<Rightarrow> string" where
  "messagePrefix presetId =
     (case presetId of
        None \<Rightarrow> ''Preset:''
      | Some i \<Rightarrow> if i = [] then ''Preset:'' else ''Preset '' @ dquote @ i @ dquote @ '':'')"

text \<open>The three inner loops of the loop over the modes.\<close>

definition requiredErrors :: "string \<Rightarrow> string \<Rightarrow> jsval \<Rightarrow> string list" where
  "requiredErrors prefix modeName modeStyles =
     concat (map (\<lambda>prop.
        if \<not> truthy (getProp modeStyles prop) \<or> typeOf (getProp modeStyles prop) \<noteq> ''string''
        then [prefix @ '' Missing required '' @ modeName @ '' property: '' @ prop]
        else []) REQUIRED_PROPERTIES)"

definition recommendedWarnings :: "string \<Rightarrow> string \<Rightarrow> jsval \<Rightarrow> string list" where
  "recommendedWarnings prefix modeName modeStyles =
     concat (map (\<lambda>prop.
        if \<not> truthy (getProp modeStyles prop)
        then [prefix @ '' Missing recommended '' @ modeName @ '' property: '' @ prop]
        else []) RECOMMENDED_PROPERTIES)"

definition colorWarning :: "string \<Rightarrow> string \<Rightarrow> string \<Rightarrow> string \<Rightarrow> string" where
  "colorWarning prefix modeName key val =
     prefix @ '' '' @ modeName @ ''.'' @ key @ '' may not be a valid color: ''
     @ dquote @ val @ dquote"

definition colorWarnings :: "string \<Rightarrow> string \<Rightarrow> jsval \<Rightarrow> string list" where
  "colorWarnings prefix modeName modeStyles =
     concat (map (\<lambda>(key, v).
        case v of
          JStr val \<Rightarrow>
            if trim val \<noteq> [] then
              (if \<not> isValidColorValue val then [colorWarning prefix modeName key val] else [])
            else []
        | _ \<Rightarrow> []) (objectEntries modeStyles))"

text \<open>One round of the loop over the modes: the errors and the warnings it appends.\<close>

definition validateMode :: "string \<Rightarrow> jsval \<Rightarrow> string \<Rightarrow> string list \<times> string list" where
  "validateMode prefix styles modeName =
     (let modeStyles = getProp styles modeName
      in if \<not> truthy modeStyles \<or> typeOf modeStyles \<noteq> ''object''
         then ([prefix @ '' Must have '' @ modeName @ '' mode styles''], [])
         else (requiredErrors prefix modeName modeStyles,
               recommendedWarnings prefix modeName modeStyles
               @ colorWarnings prefix modeName modeStyles))"

definition validateTweakCNPreset :: "jsval \<Rightarrow> string option \<Rightarrow> ValidationResult" where
  "validateTweakCNPreset preset presetId =
     (let prefix = messagePrefix presetId
      in if \<not> truthy preset \<or> typeOf preset \<noteq> ''object''
         then \<lparr> isValid = False, errors = [prefix @ '' Must be an object''], warnings = [] \<rparr>
         else
           (let label = getProp preset ''label'';
                errors1 =
                  (if \<not> truthy label \<or> typeOf label \<noteq> ''string''
                      \<or> (case label of JStr l \<Rightarrow> trim l = [] | _ \<Rightarrow> False)
                   then [prefix @ '' Must have a non-empty label''] else []);
                styles = getProp preset ''styles''
            in if \<not> truthy styles \<or> typeOf styles \<noteq> ''object''
               then \<lparr> isValid = False,
                      errors = errors1 @ [prefix @ '' Must have a styles object''],
                      warnings = [] \<rparr>
               else
                 (let l = validateMode prefix styles ''light'';
                      d = validateMode prefix styles ''dark'';
                      errs = errors1 @ fst l @ fst d;
                      warns = snd l @ snd d
                  in \<lparr> isValid = (errs = []), errors = errs, warnings = warns \<rparr>)))"

text \<open>\<^verbatim>\<open>/^[a-z0-9-_]+$/\<close>.\<close>

definition idWellFormed :: "string \<Rightarrow> bool" where
  "idWellFormed i = rxMatch (rxPlus (Cls ''abcdefghijklmnopqrstuvwxyz0123456789-_'')) i"

text \<open>One round of the loop of \<^verbatim>\<open>validateCustomPresets\<close>.\<close>

definition validateEntry :: "string \<times> jsval \<Rightarrow> string list \<times> string list" where
  "validateEntry entry =
     (case entry of (i, preset) \<Rightarrow>
        if i = [] \<or> trim i = [] then ([''Preset ID must be a non-empty string''], [])
        else
          (let w = (if \<not> idWellFormed i
                    then [''Preset ID '' @ dquote @ i @ dquote
                          @ '' should only contain lowercase letters, numbers, hyphens, and underscores'']
                    else []);
               result = validateTweakCNPreset preset (Some i)
           in (errors result, w @ warnings result)))"

definition validateCustomPresets :: "jsval \<Rightarrow> ValidationResult" where
  "validateCustomPresets customPresets =
     (if \<not> truthy customPresets \<or> typeOf customPresets \<noteq> ''object''
      then \<lparr> isValid = False, errors = [''Custom presets must be an object''], warnings = [] \<rparr>
      else
        (let rounds = map validateEntry (objectEntries customPresets);
             allErrors = concat (map fst rounds);
             allWarnings = concat (map snd rounds)
         in \<lparr> isValid = (allErrors = []), errors = allErrors, warnings = allWarnings \<rparr>))"

subsection \<open>The preset registry of the provider (\<^verbatim>\<open>availablePresets\<close>)\<close>

text \<open>
  The built-in collection \<^verbatim>\<open>tweakcnPresets\<close> is a parameter. \<^verbatim>\<open>Object.assign\<close> stores
  the entries of the source in order: an existing key keeps its place, a new key goes to
  the end.
\<close>

definition objectAssign :: "(string \<times> jsval) list \<Rightarrow> jsval \<Rightarrow> (string \<times> jsval) list" where
  "objectAssign target source =
     foldl (\<lambda>t (k, v). AList.update k v t) target (objectEntries source)"

text \<open>\<^verbatim>\<open>customPresets ?? {}\<close>.\<close>

definition normalizedCustomPresets :: "jsval \<Rightarrow> jsval" where
  "normalizedCustomPresets customPresets =
     (case customPresets of JUndefined \<Rightarrow> JObj [] | JNull \<Rightarrow> JObj [] | v \<Rightarrow> v)"

definition availablePresets :: "(string \<times> jsval) list \<Rightarrow> jsval \<Rightarrow> (string \<times> jsval) list" where
  "availablePresets tweakcnPresets customPresets =
     (let custom = normalizedCustomPresets customPresets;
          merged = objectAssign [] (JObj tweakcnPresets)
      in if length (objectEntries custom) > 0 then
           (let validationResult = validateCustomPresets custom
            in if isValid validationResult \<or> length (errors validationResult) = 0
               then objectAssign merged custom
               else merged)
         else merged)"

definition builtInPresets :: "(string \<times> jsval) list \<Rightarrow> jsval \<Rightarrow> (string \<times> jsval) list" where
  "builtInPresets tweakcnPresets customPresets = tweakcnPresets"

text \<open>A mode map with the eight required properties, and a preset built from it.\<close>

definition exampleModeStyles :: jsval where
  "exampleModeStyles =
     JObj [(''background'', JStr ''#ffffff''), (''foreground'', JStr ''#000000''),
           (''primary'', JStr ''#2563eb''), (''primary-foreground'', JStr ''#ffffff''),
           (''secondary'', JStr ''#f1f5f9''), (''secondary-foreground'', JStr ''#0f172a''),
           (''card'', JStr ''#ffffff''), (''card-foreground'', JStr ''#000000'')]"

definition examplePreset :: "string \<Rightarrow> jsval" where
  "examplePreset label =
     JObj [(''label'', JStr label),
           (''styles'', JObj [(''light'', exampleModeStyles), (''dark'', exampleModeStyles)])]"

subsection \<open>Auxiliary notions for the statements about the normaliser\<close>

text \<open>
  The colour strings that the normaliser of the provider converts by its own parsers.
  A hex colour is three or six hexadecimal digits, with or without a leading \<^verbatim>\<open>#\<close>
  (the forms that \<^verbatim>\<open>parseHex\<close> documents). The \<^verbatim>\<open>hsl(...)\<close>, \<^verbatim>\<open>rgb(...)\<close> and raw
  triplet forms are strings of three components; \<^verbatim>\<open>parseHSL\<close> reads every string of
  three components, whatever the components are.
\<close>

definition isHexDigit :: "char \<Rightarrow> bool" where
  "isHexDigit c = (hexDigitVal c \<noteq> None)"

definition isHexColor :: "string \<Rightarrow> bool" where
  "isHexColor t =
     (let h = (case t of [] \<Rightarrow> [] | c # r \<Rightarrow> if c = CHR ''#'' then r else t)
      in (length h = 3 \<or> length h = 6) \<and> list_all isHexDigit h)"

definition normalizerAccepts :: "string \<Rightarrow> bool" where
  "normalizerAccepts x = (let t = trim x in parseHSL t \<noteq> None \<or> isHexColor t)"

text \<open>Characters of a printed number; strings of them; numbers within \<open>0 .. hi\<close>.\<close>

definition numChar :: "char \<Rightarrow> bool" where
  "numChar c = (isDigit c \<or> c = CHR ''.'' \<or> c = CHR ''e'' \<or> c = CHR ''-'' \<or> c = CHR ''+'')"

definition tok :: "string \<Rightarrow> bool" where
  "tok s = (s \<noteq> [] \<and> (\<forall>c\<in>set s. numChar c))"

definition inRange :: "int \<Rightarrow> jsnum \<Rightarrow> bool" where
  "inRange hi x = (case x of Fin d \<Rightarrow> 0 \<le> dec_val d \<and> dec_val d \<le> of_int hi | _ \<Rightarrow> False)"

definition isIntIn :: "int \<Rightarrow> jsnum \<Rightarrow> bool" where
  "isIntIn hi x = (case x of Fin (Dec i e) \<Rightarrow> e = 0 \<and> 0 \<le> i \<and> i \<le> hi | _ \<Rightarrow> False)"

text \<open>What \<^verbatim>\<open>parseHSL\<close> makes of one component: read, \<^verbatim>\<open>|| 0\<close>, clamp.\<close>

definition clampRead :: "int \<Rightarrow> string \<Rightarrow> jsnum" where
  "clampRead hi str = mathMax (numOfInt 0) (mathMin (numOfInt hi) (orZero (parseFloat str)))"

subsection \<open>Appearance mode (provider and generated script)\<close>

record browser =
  hasWindow :: bool
  storageThrows :: bool
  items :: "string \<rightharpoonup> string"
  prefersDark :: bool

text \<open>\<^verbatim>\<open>localStorage.getItem(key)\<close>: \<open>Inl ()\<close> when the access throws, else the item or null.\<close>

definition getItem :: "browser \<Rightarrow> string \<Rightarrow> unit + string option" where
  "getItem b key = (if storageThrows b then Inl () else Inr (items b key))"

definition getSystemTheme :: "browser \<Rightarrow> string" where
  "getSystemTheme b =
     (if \<not> hasWindow b then ''light''
      else if prefersDark b then ''dark'' else ''light'')"

text \<open>
  \<^verbatim>\<open>getStoredMode\<close>: the item is cast to \<^verbatim>\<open>Mode\<close> without a check; \<^verbatim>\<open>|| null\<close> turns the
  empty string into null.
\<close>

definition getStoredMode :: "browser \<Rightarrow> string \<Rightarrow> string option" where
  "getStoredMode b storageKey =
     (if \<not> hasWindow b then None
      else case getItem b storageKey of
             Inl _ \<Rightarrow> None
           | Inr None \<Rightarrow> None
           | Inr (Some v) \<Rightarrow> (if v = [] then None else Some v))"

record provider_modes =
  mode :: string
  resolvedMode :: string

text \<open>The two \<^verbatim>\<open>useState\<close> initialisers of \<^verbatim>\<open>ThemeProvider\<close>.\<close>

definition initialModes :: "string \<Rightarrow> provider_modes" where
  "initialModes defaultMode =
     \<lparr> mode = defaultMode,
       resolvedMode = (if defaultMode = ''dark'' then ''dark'' else ''light'') \<rparr>"

text \<open>The effect "Load persisted mode after hydration".\<close>

definition loadPersistedMode :: "browser \<Rightarrow> string \<Rightarrow> provider_modes \<Rightarrow> provider_modes" where
  "loadPersistedMode b modeStorageKey st =
     (if \<not> hasWindow b then st
      else case getStoredMode b modeStorageKey of
             None \<Rightarrow> st
           | Some stored \<Rightarrow> st\<lparr>mode := stored\<rparr>)"

text \<open>The effect "Update resolved mode when mode or system preference changes".\<close>

definition updateResolvedMode :: "browser \<Rightarrow> provider_modes \<Rightarrow> provider_modes" where
  "updateResolvedMode b st =
     (if mode st = ''system'' then st\<lparr>resolvedMode := getSystemTheme b\<rparr>
      else st\<lparr>resolvedMode := mode st\<rparr>)"

text \<open>
  After mount both effects have run, and the second runs again once the first has changed
  \<^verbatim>\<open>mode\<close>; the state the provider settles in is the second effect applied to the
  result of the first.
\<close>

definition reconcileModes :: "browser \<Rightarrow> string \<Rightarrow> string \<Rightarrow> provider_modes" where
  "reconcileModes b modeStorageKey defaultMode =
     updateResolvedMode b (loadPersistedMode b modeStorageKey (initialModes defaultMode))"

text \<open>
  The mode restoration of the generated script: the stored item is used only when it is
  one of the three mode names.
\<close>

definition script_restoreMode :: "browser \<Rightarrow> string \<Rightarrow> string \<Rightarrow> provider_modes" where
  "script_restoreMode b modeStorageKey defaultMode =
     (let storedMode = (case getItem b modeStorageKey of Inl _ \<Rightarrow> None | Inr v \<Rightarrow> v);
          isValidMode = (storedMode = Some ''light'' \<or> storedMode = Some ''dark''
                         \<or> storedMode = Some ''system'');
          m = (if isValidMode then (case storedMode of Some v \<Rightarrow> v | None \<Rightarrow> defaultMode)
               else defaultMode);
          systemMode = (if prefersDark b then ''dark'' else ''light'')
      in \<lparr> mode = m, resolvedMode = (if m = ''system'' then systemMode else m) \<rparr>)"

section \<open>Results\<close>

subsection \<open>Persisted mode\<close>

text \<open>
  C3. Claim: a persisted mode string that is not one of light, dark, system is ignored by
  the provider's reconciliation, which keeps the configured default. The provider does
  not check the stored string: with the item \<^verbatim>\<open>blue\<close> under the mode key and default
  mode \<^verbatim>\<open>system\<close>, reconciliation ends with mode \<^verbatim>\<open>blue\<close> and resolved mode
  \<^verbatim>\<open>blue\<close>, whereas the generated script, on the same storage, keeps \<^verbatim>\<open>system\<close>.
\<close>

theorem invalid_stored_mode_adopted:
  "reconcileModes
     \<lparr> hasWindow = True, storageThrows = False,
       items = [''theme-engine-theme'' \<mapsto> ''blue''], prefersDark = False \<rparr>
     ''theme-engine-theme'' ''system''
   = \<lparr> mode = ''blue'', resolvedMode = ''blue'' \<rparr>
   \<and> script_restoreMode
     \<lparr> hasWindow = True, storageThrows = False,
       items = [''theme-engine-theme'' \<mapsto> ''blue''], prefersDark = False \<rparr>
     ''theme-engine-theme'' ''system''
   = \<lparr> mode = ''system'', resolvedMode = ''light'' \<rparr>"
  by (simp add: reconcileModes_def updateResolvedMode_def loadPersistedMode_def
      initialModes_def getStoredMode_def getItem_def script_restoreMode_def Let_def)

subsection \<open>The property applicator\<close>

lemma cssVar_inj [simp]: "cssVar a = cssVar b \<longleftrightarrow> a = b"
  by (simp add: cssVar_def)

lemma clear_loop:
  "foldl (\<lambda>r prop. removeProperty r (cssVar prop)) rs props k
     = (if k \<in> cssVar ` set props then None else rs k)"
  by (induction props arbitrary: rs) (auto simp: removeProperty_def)

lemma clearAll_apply:
  "clearAll rs k = (if k \<in> cssVar ` set allCategories then None else rs k)"
  unfolding clearAll_def by (rule clear_loop)

lemma applyProp_propValue:
  "applyProp env c rs prop =
     (case propValue env c prop of None \<Rightarrow> rs | Some v \<Rightarrow> rs(cssVar prop \<mapsto> v))"
  by (simp add: applyProp_def propValue_def setProperty_def Let_def split: option.splits)

lemma apply_loop_other:
  "k \<notin> cssVar ` set props \<Longrightarrow> foldl (applyProp env c) rs props k = rs k"
  by (induction props arbitrary: rs) (auto simp: applyProp_propValue split: option.splits)

lemma apply_loop_at:
  "distinct props \<Longrightarrow> prop \<in> set props \<Longrightarrow>
   foldl (applyProp env c) rs props (cssVar prop)
     = (case propValue env c prop of None \<Rightarrow> rs (cssVar prop) | Some v \<Rightarrow> Some v)"
proof (induction props arbitrary: rs)
  case Nil
  then show ?case by simp
next
  case (Cons a props)
  show ?case
  proof (cases "prop = a")
    case True
    then have notin: "cssVar prop \<notin> cssVar ` set props" using Cons.prems by auto
    have "foldl (applyProp env c) rs (a # props) (cssVar prop)
            = applyProp env c rs a (cssVar prop)"
      using apply_loop_other [OF notin] by simp
    also have "\<dots> = (case propValue env c prop of None \<Rightarrow> rs (cssVar prop) | Some v \<Rightarrow> Some v)"
      using True by (simp add: applyProp_propValue split: option.splits)
    finally show ?thesis .
  next
    case False
    then have "prop \<in> set props" "distinct props" using Cons.prems by auto
    from Cons.IH [OF this(2) this(1), of "applyProp env c rs a"]
    have "foldl (applyProp env c) rs (a # props) (cssVar prop)
            = (case propValue env c prop of None \<Rightarrow> applyProp env c rs a (cssVar prop)
               | Some v \<Rightarrow> Some v)"
      by simp
    moreover have "applyProp env c rs a (cssVar prop) = rs (cssVar prop)"
      using False by (simp add: applyProp_propValue split: option.splits)
    ultimately show ?thesis by (simp split: option.splits)
  qed
qed

lemma distinct_allCategories: "distinct allCategories"
  unfolding allCategories_def category_colors_def category_typography_def
      category_layout_def category_shadows_def category_spacing_def
  by code_simp


lemma inheritFont_apply:
  "inheritFont oc c a k = (if k = a \<and> c a = None then oc a else c k)"
  by (cases "oc a") (simp_all add: inheritFont_def)

lemma inherit_loop:
  "foldl (inheritFont oc) c fps k = (if k \<in> set fps \<and> c k = None then oc k else c k)"
proof (induction fps arbitrary: c)
  case Nil
  show ?case by simp
next
  case (Cons a fps)
  have "foldl (inheritFont oc) c (a # fps) k
          = (if k \<in> set fps \<and> inheritFont oc c a k = None then oc k
             else inheritFont oc c a k)"
    using Cons.IH [of "inheritFont oc c a"] by simp
  also have "\<dots> = (if k \<in> set (a # fps) \<and> c k = None then oc k else c k)"
    by (auto simp: inheritFont_apply)
  finally show ?case .
qed

lemma inheritFonts_apply:
  "inheritFonts (Some oc) c k = (if k \<in> set fontProperties \<and> c k = None then oc k else c k)"
  by (simp add: inheritFonts_def inherit_loop)

lemma inheritFonts_at:
  "inheritFonts oo c prop
     = (if c prop = None \<and> prop \<in> set fontProperties
        then (case oo of None \<Rightarrow> None | Some oc \<Rightarrow> oc prop) else c prop)"
proof (cases oo)
  case None
  then show ?thesis by (simp add: inheritFonts_def)
next
  case (Some oc)
  then show ?thesis by (simp add: inheritFonts_apply)
qed

lemma propValue_cases:
  "propValue env colors prop
     = map_option (writtenValue env prop)
         (let v1 = (if truthyStr (colors prop) then colors prop else defaultValues prop)
          in if truthyStr v1 then v1 else None)"
proof (cases "colors prop")
  case None
  then show ?thesis
    by (cases "defaultValues prop")
       (simp_all add: propValue_def writtenValue_def truthyStr_def)
next
  case (Some v)
  then show ?thesis
    by (cases "defaultValues prop")
       (simp_all add: propValue_def writtenValue_def truthyStr_def)
qed

lemma propValue_resolved:
  assumes "modeColors p m = Some c"
  shows "propValue env (inheritFonts (modeColors p (otherMode m)) c) prop
           = map_option (writtenValue env prop) (resolvedValue p m prop)"
  unfolding propValue_cases inheritFonts_at resolvedValue_def using assms by simp

lemma apply_root_at:
  assumes "modeColors p m = Some c" "prop \<in> set allCategories"
  shows "snd (applyPresetColors env (Some p) m rs) (cssVar prop)
           = map_option (writtenValue env prop) (resolvedValue p m prop)"
  using assms
  by (simp add: applyPresetColors_def Let_def apply_loop_at distinct_allCategories
      clearAll_apply propValue_resolved split: option.splits)

lemma modeColors_setModeColors:
  "modeColors (setModeColors p m c) m = Some c"
  "modeColors (setModeColors p m c) (otherMode m) = modeColors p (otherMode m)"
  by (cases m; simp)+

lemma apply_preset_after:
  "modeColors p m = Some c \<Longrightarrow>
   fst (applyPresetColors env (Some p) m rs)
     = Some (setModeColors p m (inheritFonts (modeColors p (otherMode m)) c))"
  by (simp add: applyPresetColors_def Let_def)

lemma font_props:
  assumes "fp \<in> set fontProperties"
  shows "fp \<in> set allCategories" "fp \<notin> set category_colors" "fp \<noteq> ''shadow-color''"
    "defaultValues fp = None"
  using assms
  by (auto simp: fontProperties_def allCategories_def category_typography_def
      category_colors_def defaultValues_def)

text \<open>
  C10. If the preset argument is absent, or its map for the requested mode is absent,
  \<^verbatim>\<open>applyPresetColors\<close> does nothing: nothing is cleared and nothing is written, so
  the style of the root (and the preset) is returned as it was.
\<close>

theorem applyPresetColors_noop:
  assumes "preset = None \<or> (\<exists>p. preset = Some p \<and> modeColors p m = None)"
  shows "applyPresetColors env preset m rs = (preset, rs)"
  using assms by (auto simp: applyPresetColors_def)

theorem applyPresetColors_noop_witness:
  "applyPresetColors probeFails
     (Some \<lparr> light = Some [''primary'' \<mapsto> ''#ff0000''], dark = None \<rparr>) Dark
     [''--primary'' \<mapsto> ''1 2% 3%'']
   = (Some \<lparr> light = Some [''primary'' \<mapsto> ''#ff0000''], dark = None \<rparr>,
      [''--primary'' \<mapsto> ''1 2% 3%''])"
  using applyPresetColors_noop
    [of "Some \<lparr> light = Some [''primary'' \<mapsto> ''#ff0000''], dark = None \<rparr>" Dark]
  by simp

text \<open>
  C5. Claim: after \<open>apply(A, m)\<close> and then \<open>apply(B, m)\<close>, every property of the fixed set
  without a resolved value for \<open>B\<close> in mode \<open>m\<close> is absent from the root, and after any
  apply the fixed-set properties on the root are exactly those with a resolved value.
  This holds when \<open>B\<close> has a map for mode \<open>m\<close>: then, whatever the root held before,
  a fixed-set property is on the root exactly when it has a resolved value, and it holds
  that value (normalised for colour properties).
\<close>

theorem clearing_invariant:
  assumes "modeColors B m = Some c" and "prop \<in> set allCategories"
  shows "(resolvedValue B m prop = None \<longrightarrow>
            snd (applyPresetColors env (Some B) m (snd (applyPresetColors env A m rs)))
              (cssVar prop) = None)
       \<and> (cssVar prop \<in> dom (snd (applyPresetColors env (Some B) m rs))
            \<longleftrightarrow> resolvedValue B m prop \<noteq> None)
       \<and> snd (applyPresetColors env (Some B) m rs) (cssVar prop)
            = map_option (writtenValue env prop) (resolvedValue B m prop)"
  using apply_root_at [OF assms] by (auto simp: dom_def)

theorem clearing_invariant_witness:
  "modeColors \<lparr> light = None, dark = Some [''background'' \<mapsto> ''#ff0000''] \<rparr> Dark
     = Some [''background'' \<mapsto> ''#ff0000'']
   \<and> ''card'' \<in> set allCategories
   \<and> snd (applyPresetColors probeFails
            (Some \<lparr> light = None, dark = Some [''background'' \<mapsto> ''#ff0000''] \<rparr>) Dark
            (snd (applyPresetColors probeFails
                   (Some \<lparr> light = None, dark = Some [''card'' \<mapsto> ''#00ff00''] \<rparr>) Dark
                   Map.empty))) ''--card'' = None"
  using clearing_invariant
    [of "\<lparr> light = None, dark = Some [''background'' \<mapsto> ''#ff0000''] \<rparr>" Dark
        "[''background'' \<mapsto> ''#ff0000'']" "''card''" probeFails
        "Some \<lparr> light = None, dark = Some [''card'' \<mapsto> ''#00ff00''] \<rparr>" Map.empty]
  by (simp add: allCategories_def category_colors_def resolvedValue_def cssVar_def
      fontProperties_def defaultValues_def truthyStr_def)

text \<open>
  Without a map for the mode the second call returns early, before the clearing loop:
  the background that preset \<open>A\<close> wrote stays on the root although \<open>B\<close> resolves
  no value for it.
\<close>

theorem clearing_fails_without_mode_map:
  "resolvedValue \<lparr> light = Some [''background'' \<mapsto> ''#ffffff''], dark = None \<rparr> Dark ''background'' = None
   \<and> ''background'' \<in> set allCategories
   \<and> snd (applyPresetColors probeFails
             (Some \<lparr> light = Some [''background'' \<mapsto> ''#ffffff''], dark = None \<rparr>) Dark
             (snd (applyPresetColors probeFails
                     (Some \<lparr> light = None, dark = Some [''background'' \<mapsto> ''#ff0000''] \<rparr>)
                     Dark Map.empty)))
         ''--background''
       = Some ''0 100% 50%''"
proof -
  have a: "''background'' \<in> set allCategories"
    by (simp add: allCategories_def category_colors_def)
  have n: "normalizeColorValueToHslTriplet probeFails ''#ff0000'' = ''0 100% 50%''"
    by code_simp
  have "snd (applyPresetColors probeFails
               (Some \<lparr> light = None, dark = Some [''background'' \<mapsto> ''#ff0000''] \<rparr>)
               Dark Map.empty) (cssVar ''background'') = Some ''0 100% 50%''"
    using apply_root_at [of "\<lparr> light = None, dark = Some [''background'' \<mapsto> ''#ff0000''] \<rparr>"
        Dark "[''background'' \<mapsto> ''#ff0000'']" "''background''" probeFails Map.empty] a n
    by (simp add: resolvedValue_def writtenValue_def truthyStr_def category_colors_def)
  then show ?thesis
    using a by (simp add: applyPresetColors_def resolvedValue_def cssVar_def)
qed

text \<open>
  C6. Claim: font inheritance writes the other mode's font to the document and leaves
  the preset's colours object unchanged. The font loop assigns into the target-mode
  map itself. What holds: when the target-mode map lacks a font property that the other
  mode's map has, the call stores the other mode's value under that key of the
  target-mode map, writes it to the root (if it is not empty), leaves the other mode's
  map as it was and changes no entry of the target-mode map outside the three font
  properties.
\<close>

theorem font_inheritance_patches_preset:
  assumes "modeColors p m = Some c" and "modeColors p (otherMode m) = Some oc"
    and "fp \<in> set fontProperties" and "c fp = None" and "oc fp = Some v"
  shows "presetEntry (fst (applyPresetColors env (Some p) m rs)) m fp = Some v
       \<and> snd (applyPresetColors env (Some p) m rs) (cssVar fp)
           = (if v = [] then None else Some v)
       \<and> (\<forall>k. presetEntry (fst (applyPresetColors env (Some p) m rs)) (otherMode m) k = oc k)
       \<and> (\<forall>k. k \<notin> set fontProperties \<longrightarrow>
              presetEntry (fst (applyPresetColors env (Some p) m rs)) m k = c k)"
proof -
  have r: "resolvedValue p m fp = (if v = [] then None else Some v)"
    using assms by (simp add: resolvedValue_def truthyStr_def font_props)
  have w: "writtenValue env fp v = v"
    using assms(3) by (simp add: writtenValue_def font_props)
  have root: "snd (applyPresetColors env (Some p) m rs) (cssVar fp)
                = (if v = [] then None else Some v)"
    using apply_root_at [OF assms(1) font_props(1) [OF assms(3)], of env rs] r w by simp
  show ?thesis
    using assms root
    by (simp add: presetEntry_def apply_preset_after modeColors_setModeColors
        inheritFonts_apply)
qed

theorem font_inheritance_patches_preset_witness:
  "presetEntry
     (fst (applyPresetColors probeFails
             (Some \<lparr> light = Some [''font-mono'' \<mapsto> ''X''], dark = Some Map.empty \<rparr>)
             Dark Map.empty))
     Dark ''font-mono'' = Some ''X''
   \<and> snd (applyPresetColors probeFails
             (Some \<lparr> light = Some [''font-mono'' \<mapsto> ''X''], dark = Some Map.empty \<rparr>)
             Dark Map.empty) ''--font-mono'' = Some ''X''"
  using font_inheritance_patches_preset
    [of "\<lparr> light = Some [''font-mono'' \<mapsto> ''X''], dark = Some Map.empty \<rparr>" Dark Map.empty
        "[''font-mono'' \<mapsto> ''X'']" "''font-mono''" "''X''" probeFails Map.empty]
  by (simp add: fontProperties_def cssVar_def)

text \<open>The dark map has no \<^verbatim>\<open>font-mono\<close> before the call and has it after.\<close>

theorem font_inheritance_mutates_preset:
  "presetEntry (Some \<lparr> light = Some [''font-mono'' \<mapsto> ''X''], dark = Some Map.empty \<rparr>)
     Dark ''font-mono'' = None
   \<and> presetEntry
       (fst (applyPresetColors probeFails
               (Some \<lparr> light = Some [''font-mono'' \<mapsto> ''X''], dark = Some Map.empty \<rparr>)
               Dark Map.empty))
       Dark ''font-mono'' = Some ''X''"
  by (simp add: presetEntry_def apply_preset_after modeColors_setModeColors
      inheritFonts_apply fontProperties_def)

subsection \<open>The two normalisers\<close>

text \<open>
  C1. Claim: the normaliser and applicator inlined in the generated script compute the
  same written properties as those of the provider, the two normalisers being equal on
  every string. On \<^verbatim>\<open>rgb(255, 0, 0)\<close> the provider's normaliser answers \<^verbatim>\<open>0 0% 0%\<close>
  (\<^verbatim>\<open>parseHSL\<close> accepts the three comma-separated pieces and reads them as zeros),
  the script's answers \<^verbatim>\<open>0 100% 50%\<close>; a preset with that primary colour is written
  accordingly by the two applicators.
\<close>

theorem normalizers_differ_on_rgb:
  "normalizeColorValueToHslTriplet probeFails ''rgb(255, 0, 0)'' = ''0 0% 0%''
   \<and> script_normalizeColorValueToHslTriplet probeFails ''rgb(255, 0, 0)'' = ''0 100% 50%''
   \<and> snd (applyPresetColors probeFails
            (Some \<lparr> light = Some [''primary'' \<mapsto> ''rgb(255, 0, 0)''], dark = None \<rparr>)
            Light Map.empty) ''--primary'' = Some ''0 0% 0%''
   \<and> script_restorePreset probeFails
            (Some \<lparr> light = Some [''primary'' \<mapsto> ''rgb(255, 0, 0)''], dark = None \<rparr>)
            Light Map.empty ''--primary'' = Some ''0 100% 50%''"
  by code_simp

text \<open>
  C2. Claim: on \<^verbatim>\<open>rgb(r, g, b)\<close> the provider's normaliser returns the RGB-to-HSL
  conversion, for instance \<^verbatim>\<open>0 100% 50%\<close> on \<^verbatim>\<open>rgb(255, 0, 0)\<close>. In every document the
  provider's normaliser returns \<^verbatim>\<open>0 0% 0%\<close> there, and on \<^verbatim>\<open>rgb(10, 20, 30)\<close> it returns
  the second and third channel as percentages.
\<close>

theorem provider_normalizer_on_rgb:
  "normalizeColorValueToHslTriplet env ''rgb(255, 0, 0)'' = ''0 0% 0%''
   \<and> normalizeColorValueToHslTriplet env ''rgb(10, 20, 30)'' = ''0 20% 30%''"
  by code_simp

subsection \<open>The preset registry\<close>

lemma update_fresh:
  "k \<notin> fst ` set xs \<Longrightarrow> AList.update k v xs = xs @ [(k, v)]"
  by (induction xs) auto

lemma assign_loop_rebuild:
  "distinct (map fst (xs @ ys)) \<Longrightarrow>
   foldl (\<lambda>t (k, v). AList.update k v t) xs ys = xs @ ys"
proof (induction ys arbitrary: xs)
  case Nil
  show ?case by simp
next
  case (Cons y ys)
  obtain k v where y: "y = (k, v)" by (cases y)
  have fresh: "k \<notin> fst ` set xs" using Cons.prems y by auto
  have d: "distinct (map fst ((xs @ [(k, v)]) @ ys))" using Cons.prems y by auto
  show ?case using Cons.IH [OF d] fresh y by (simp add: update_fresh)
qed

lemma assign_loop_map_of:
  "distinct (map fst kvs) \<Longrightarrow>
   map_of (foldl (\<lambda>t (k, v). AList.update k v t) t kvs) = map_of t ++ map_of kvs"
proof (induction kvs arbitrary: t)
  case Nil
  show ?case by simp
next
  case (Cons y kvs)
  obtain k v where y: "y = (k, v)" by (cases y)
  have nk: "k \<notin> dom (map_of kvs)" using Cons.prems y by (auto simp: dom_map_of_conv_image_fst)
  have d: "distinct (map fst kvs)" using Cons.prems by simp
  have "map_of (foldl (\<lambda>t (k, v). AList.update k v t) t (y # kvs)) x
          = (map_of t ++ map_of (y # kvs)) x" for x
    using Cons.IH [OF d, of "AList.update k v t"] y nk
    by (auto simp: update_conv' map_add_def dom_def split: option.splits)
  then show ?case by (rule ext)
qed

lemma objectAssign_empty:
  "distinct (map fst kvs) \<Longrightarrow> objectAssign [] (JObj kvs) = kvs"
  using assign_loop_rebuild [of "[]" kvs] by (simp add: objectAssign_def)

lemma objectAssign_map_of:
  "distinct (map fst (objectEntries src)) \<Longrightarrow>
   map_of (objectAssign t src) = map_of t ++ map_of (objectEntries src)"
  by (simp add: objectAssign_def assign_loop_map_of)

lemma validate_non_object:
  "\<not> truthy c \<or> typeOf c \<noteq> ''object'' \<Longrightarrow> errors (validateCustomPresets c) \<noteq> []"
  by (auto simp: validateCustomPresets_def)

lemma validate_isValid:
  "isValid (validateCustomPresets c) = (errors (validateCustomPresets c) = [])"
  by (simp add: validateCustomPresets_def Let_def)

lemma normalized_entries:
  "errors (validateCustomPresets (normalizedCustomPresets c)) = [] \<Longrightarrow>
   objectEntries (normalizedCustomPresets c) = objectEntries c"
  by (cases c) (auto simp: normalizedCustomPresets_def)

lemma normalized_entries_distinct:
  "distinct (map fst (objectEntries c)) \<Longrightarrow>
   distinct (map fst (objectEntries (normalizedCustomPresets c)))"
  by (cases c) (auto simp: normalizedCustomPresets_def)

text \<open>
  C4. The merge is all or nothing. Let the built-in collection and the custom collection
  be objects (distinct keys). If \<^verbatim>\<open>validateCustomPresets\<close> reports an error for the
  custom collection, \<^verbatim>\<open>availablePresets\<close> is the built-in collection itself; if it
  reports none, every custom entry is in the merged collection and takes precedence over
  a built-in entry with the same key, the other built-in entries staying; and
  \<^verbatim>\<open>builtInPresets\<close> is the built-in collection in both cases.
\<close>

theorem registry_merge_all_or_nothing:
  assumes "distinct (map fst tweakcnPresets)"
    and "distinct (map fst (objectEntries customPresets))"
  shows "(errors (validateCustomPresets (normalizedCustomPresets customPresets)) \<noteq> [] \<longrightarrow>
            availablePresets tweakcnPresets customPresets = tweakcnPresets)
       \<and> (errors (validateCustomPresets (normalizedCustomPresets customPresets)) = [] \<longrightarrow>
            map_of (availablePresets tweakcnPresets customPresets)
              = map_of tweakcnPresets ++ map_of (objectEntries customPresets))
       \<and> builtInPresets tweakcnPresets customPresets = tweakcnPresets"
proof (intro conjI impI)
  assume "errors (validateCustomPresets (normalizedCustomPresets customPresets)) \<noteq> []"
  then show "availablePresets tweakcnPresets customPresets = tweakcnPresets"
    using assms(1)
    by (simp add: availablePresets_def Let_def objectAssign_empty validate_isValid)
next
  assume e: "errors (validateCustomPresets (normalizedCustomPresets customPresets)) = []"
  let ?c = "normalizedCustomPresets customPresets"
  have ent: "objectEntries ?c = objectEntries customPresets"
    using e by (rule normalized_entries)
  have d: "distinct (map fst (objectEntries ?c))"
    using assms(2) by (rule normalized_entries_distinct)
  show "map_of (availablePresets tweakcnPresets customPresets)
          = map_of tweakcnPresets ++ map_of (objectEntries customPresets)"
  proof (cases "objectEntries ?c = []")
    case True
    then show ?thesis using assms(1) ent
      by (simp add: availablePresets_def Let_def objectAssign_empty)
  next
    case False
    then show ?thesis using assms(1) e ent objectAssign_map_of [OF d, of tweakcnPresets]
      by (simp add: availablePresets_def Let_def objectAssign_empty validate_isValid)
  qed
next
  show "builtInPresets tweakcnPresets customPresets = tweakcnPresets"
    by (simp add: builtInPresets_def)
qed

theorem registry_merge_all_or_nothing_witness:
  "map_of (availablePresets [(''a'', examplePreset ''Built'')]
             (JObj [(''a'', examplePreset ''Custom'')])) ''a''
     = Some (examplePreset ''Custom'')
   \<and> availablePresets [(''a'', examplePreset ''Built'')]
        (JObj [(''a'', examplePreset ''Custom''), (''b'', JObj [(''label'', JStr ''B'')])])
     = [(''a'', examplePreset ''Built'')]"
proof -
  have e1: "errors (validateCustomPresets
              (normalizedCustomPresets (JObj [(''a'', examplePreset ''Custom'')]))) = []"
    by code_simp
  have e2: "errors (validateCustomPresets
              (normalizedCustomPresets
                 (JObj [(''a'', examplePreset ''Custom''), (''b'', JObj [(''label'', JStr ''B'')])])))
            \<noteq> []"
    by code_simp
  show ?thesis
    using registry_merge_all_or_nothing
            [of "[(''a'', examplePreset ''Built'')]" "JObj [(''a'', examplePreset ''Custom'')]"]
          registry_merge_all_or_nothing
            [of "[(''a'', examplePreset ''Built'')]"
                "JObj [(''a'', examplePreset ''Custom''), (''b'', JObj [(''label'', JStr ''B'')])]"]
          e1 e2
    by simp
qed

subsection \<open>The colour check of the validator\<close>

text \<open>
  C7. Claim: an entry whose value is a non-empty string that the colour-syntax tests do
  not recognise gets a warning, never an error. \<^verbatim>\<open>isValidColorValue\<close> ends in
  \<^verbatim>\<open>return true\<close>, so it accepts every string: the colour loop appends nothing at all,
  neither a warning nor an error, whatever the prefix, the mode and the entries.
\<close>

theorem isValidColorValue_accepts_all:
  "isValidColorValue v \<and> colorWarnings prefix modeName modeStyles = []"
proof -
  have a: "\<And>x. isValidColorValue x" by (simp add: isValidColorValue_def Let_def)
  show ?thesis using a by (auto simp: colorWarnings_def split: jsval.splits)
qed

text \<open>
  The value \<^verbatim>\<open>not-a-color\<close> passes none of the five tests, and the warning that the
  colour loop would build for it is not among the warnings of the preset.
\<close>

theorem unrecognised_colour_not_warned:
  "\<not> recognisedColorSyntax ''not-a-color''
   \<and> trim ''not-a-color'' \<noteq> []
   \<and> colorWarning ''Preset:'' ''light'' ''background'' ''not-a-color''
       \<notin> set (warnings (validateTweakCNPreset
                 (JObj [(''label'', JStr ''X''),
                        (''styles'', JObj [(''light'', JObj [(''background'', JStr ''not-a-color'')]),
                                           (''dark'', exampleModeStyles)])])
                 None))"
  by code_simp

subsection \<open>Printing and reading numbers\<close>

lemma digitChar_cases:
  assumes "n < 10"
  shows "isDigit (digitChar n) \<and> digitVal (digitChar n) = n \<and> \<not> isWs (digitChar n)"
proof -
  have "\<forall>k\<in>set [0 ..< 10].
          isDigit (digitChar k) \<and> digitVal (digitChar k) = k \<and> \<not> isWs (digitChar k)"
    by code_simp
  moreover have "n \<in> set [0 ..< 10]" using assms by simp
  ultimately show ?thesis by blast
qed

lemma showNat_digits: "c \<in> set (showNat n) \<Longrightarrow> isDigit c"
proof (induction n arbitrary: c rule: showNat.induct)
  case (1 n)
  show ?case
  proof (cases "n < 10")
    case True
    then show ?thesis using "1.prems" digitChar_cases [of n] by (simp add: showNat.simps)
  next
    case False
    then have "c \<in> set (showNat (n div 10)) \<or> c = digitChar (n mod 10)"
      using "1.prems" by (auto simp: showNat.simps [of n])
    then show ?thesis using "1.IH" [OF False] digitChar_cases [of "n mod 10"] by auto
  qed
qed

lemma showNat_nonempty [simp]: "showNat n \<noteq> []"
  by (subst showNat.simps) simp

lemma natOfDigits_snoc: "natOfDigits (ds @ [c]) = 10 * natOfDigits ds + digitVal c"
  by (simp add: natOfDigits_def)

lemma natOfDigits_append:
  "natOfDigits (a @ b) = natOfDigits a * 10 ^ length b + natOfDigits b"
proof (induction b rule: rev_induct)
  case Nil
  show ?case by (simp add: natOfDigits_def)
next
  case (snoc c b)
  have "natOfDigits (a @ b @ [c]) = 10 * natOfDigits (a @ b) + digitVal c"
    using natOfDigits_snoc [of "a @ b" c] by simp
  then show ?case using snoc natOfDigits_snoc [of b c] by (simp add: algebra_simps)
qed

lemma natOfDigits_showNat: "natOfDigits (showNat n) = n"
proof (induction n rule: showNat.induct)
  case (1 n)
  show ?case
  proof (cases "n < 10")
    case True
    then show ?thesis using digitChar_cases [of n]
      by (simp add: showNat.simps natOfDigits_def)
  next
    case False
    then show ?thesis using "1.IH" [OF False] digitChar_cases [of "n mod 10"]
      by (simp add: showNat.simps [of n] natOfDigits_snoc)
  qed
qed

lemma natOfDigits_zeros: "natOfDigits (replicate j CHR ''0'') = 0"
proof (induction j)
  case 0
  show ?case by (simp add: natOfDigits_def)
next
  case (Suc j)
  have "replicate (Suc j) CHR ''0'' = replicate j CHR ''0'' @ [CHR ''0'']"
    by (simp add: replicate_append_same)
  then show ?case using Suc natOfDigits_snoc [of "replicate j CHR ''0''" "CHR ''0''"]
    by (simp add: digitVal_def)
qed

lemma showNat_bounds:
  "0 < n \<Longrightarrow> 10 ^ (length (showNat n) - 1) \<le> n \<and> n < 10 ^ length (showNat n)"
proof (induction n rule: showNat.induct)
  case (1 n)
  show ?case
  proof (cases "n < 10")
    case True
    then show ?thesis using "1.prems" by (simp add: showNat.simps)
  next
    case False
    then have pos: "0 < n div 10" by simp
    have len: "length (showNat n) = Suc (length (showNat (n div 10)))"
      using False by (simp add: showNat.simps [of n])
    obtain j where j: "length (showNat (n div 10)) = Suc j"
      by (cases "length (showNat (n div 10))") simp_all
    from "1.IH" [OF False pos] j
    have lo: "10 ^ j \<le> n div 10" and hi: "n div 10 < 10 ^ Suc j" by auto
    have "10 * 10 ^ j \<le> n" using lo by arith
    moreover have "n < 10 * 10 ^ Suc j" using hi by arith
    ultimately show ?thesis using len j by simp
  qed
qed

lemma dec_val_powi: "dec_val (Dec m e) = of_int m * 10 powi e"
  by (simp add: power_int_def field_simps)

declare dec_val.simps [simp del]

lemma norm_dec_value:
  "norm_dec m e = (m', e') \<Longrightarrow> (of_int m' :: rat) * 10 powi e' = of_int m * 10 powi e"
proof (induction m e rule: norm_dec.induct)
  case (1 m e)
  show ?case
  proof (cases "m = 0")
    case True
    then show ?thesis using "1.prems" by (simp add: norm_dec.simps)
  next
    case False
    show ?thesis
    proof (cases "m mod 10 = 0")
      case True
      then have r: "norm_dec (m div 10) (e + 1) = (m', e')"
        using "1.prems" False by (simp add: norm_dec.simps [of m e])
      have m: "m = (m div 10) * 10" using True by auto
      have "(of_int m' :: rat) * 10 powi e' = of_int (m div 10) * 10 powi (e + 1)"
        using "1.IH" [OF False True r] .
      also have "\<dots> = of_int (m div 10) * 10 * 10 powi e"
        by (simp add: power_int_add)
      also have "\<dots> = of_int m * 10 powi e"
        using m by (metis of_int_mult of_int_numeral)
      finally show ?thesis .
    next
      case nz: False
      then show ?thesis using "1.prems" False by (simp add: norm_dec.simps [of m e])
    qed
  qed
qed

lemma norm_dec_shape:
  "norm_dec m e = (m', e') \<Longrightarrow>
   (m = 0 \<longrightarrow> m' = 0 \<and> e' = 0) \<and> (m \<noteq> 0 \<longrightarrow> m' mod 10 \<noteq> 0)
   \<and> (0 < m \<longrightarrow> 0 < m') \<and> (m < 0 \<longrightarrow> m' < 0) \<and> (m \<noteq> 0 \<longrightarrow> e \<le> e')"
proof (induction m e rule: norm_dec.induct)
  case (1 m e)
  show ?case
  proof (cases "m = 0")
    case True
    then show ?thesis using "1.prems" by (simp add: norm_dec.simps)
  next
    case False
    show ?thesis
    proof (cases "m mod 10 = 0")
      case True
      then have r: "norm_dec (m div 10) (e + 1) = (m', e')"
        using "1.prems" False by (simp add: norm_dec.simps [of m e])
      have nz: "m div 10 \<noteq> 0" using True False by auto
      have sg: "(0 < m \<longrightarrow> 0 < m div 10) \<and> (m < 0 \<longrightarrow> m div 10 < 0)"
        using True False by auto
      show ?thesis using "1.IH" [OF False True r] nz sg False by auto
    next
      case nz: False
      then show ?thesis using "1.prems" False by (auto simp: norm_dec.simps [of m e])
    qed
  qed
qed

lemma pow10_int_rat:
  "(of_int a :: rat) * 10 powi e = of_int b * 10 powi e' \<Longrightarrow> e \<le> e' \<Longrightarrow>
   a = b * 10 ^ nat (e' - e)"
proof -
  assume eq: "(of_int a :: rat) * 10 powi e = of_int b * 10 powi e'" and le: "e \<le> e'"
  have "10 powi e' = (10 powi e :: rat) * 10 powi (e' - e)"
    by (simp add: power_int_add [symmetric])
  then have "(of_int a :: rat) * 10 powi e = of_int b * 10 powi (e' - e) * 10 powi e"
    using eq by simp
  then have "(of_int a :: rat) = of_int b * 10 powi (e' - e)"
    by simp
  also have "\<dots> = of_int (b * 10 ^ nat (e' - e))"
    using le by (simp add: power_int_def)
  finally show ?thesis by (simp only: of_int_eq_iff)
qed

lemma normal_form_unique:
  assumes "(of_int a :: rat) * 10 powi e = of_int b * 10 powi e'"
    and "a mod 10 \<noteq> 0" and "b mod 10 \<noteq> 0"
  shows "a = b \<and> e = e'"
proof -
  have one: "\<And>x y (p::int) q. (of_int x :: rat) * 10 powi p = of_int y * 10 powi q \<Longrightarrow>
      x mod 10 \<noteq> 0 \<Longrightarrow> p \<le> q \<Longrightarrow> x = y \<and> p = q"
  proof -
    fix x y :: int and p q :: int
    assume eq: "(of_int x :: rat) * 10 powi p = of_int y * 10 powi q"
      and nz: "x mod 10 \<noteq> 0" and le: "p \<le> q"
    have x: "x = y * 10 ^ nat (q - p)" using pow10_int_rat [OF eq le] .
    show "x = y \<and> p = q"
    proof (cases "p = q")
      case True
      then show ?thesis using x by simp
    next
      case False
      then obtain j where "nat (q - p) = Suc j" using le by (cases "nat (q - p)") auto
      then have "x = (y * 10 ^ j) * 10" using x by simp
      then have "x mod 10 = 0" by simp
      then show ?thesis using nz by simp
    qed
  qed
  show ?thesis
  proof (cases "e \<le> e'")
    case True
    then show ?thesis using one [OF assms(1) assms(2)] by simp
  next
    case False
    then have "e' \<le> e" by simp
    then show ?thesis using one [OF assms(1) [symmetric] assms(3)] by auto
  qed
qed

lemma norm_dec_canonical:
  assumes "dec_val (Dec m e) = dec_val (Dec m2 e2)"
  shows "norm_dec m e = norm_dec m2 e2"
proof -
  obtain a p where n1: "norm_dec m e = (a, p)" by (cases "norm_dec m e")
  obtain b q where n2: "norm_dec m2 e2 = (b, q)" by (cases "norm_dec m2 e2")
  have v: "(of_int a :: rat) * 10 powi p = of_int b * 10 powi q"
    using norm_dec_value [OF n1] norm_dec_value [OF n2] assms by (simp add: dec_val_powi)
  have p: "(10::rat) powi e \<noteq> 0" "(10::rat) powi e2 \<noteq> 0" by simp_all
  have z: "m = 0 \<longleftrightarrow> m2 = 0"
  proof
    assume "m = 0"
    then have "(of_int m2 :: rat) * 10 powi e2 = 0" using assms by (simp add: dec_val_powi)
    then show "m2 = 0" using p by simp
  next
    assume "m2 = 0"
    then have "(of_int m :: rat) * 10 powi e = 0" using assms by (simp add: dec_val_powi)
    then show "m = 0" using p by simp
  qed
  show ?thesis
  proof (cases "m = 0")
    case True
    then show ?thesis using z by (simp add: norm_dec.simps)
  next
    case False
    then have "a mod 10 \<noteq> 0" "b mod 10 \<noteq> 0"
      using norm_dec_shape [OF n1] norm_dec_shape [OF n2] z by auto
    then show ?thesis using normal_form_unique [OF v] n1 n2 by simp
  qed
qed

lemma numberToString_canonical:
  "dec_val d = dec_val d' \<Longrightarrow> numberToString (Fin d) = numberToString (Fin d')"
proof -
  assume v: "dec_val d = dec_val d'"
  obtain m e where d: "d = Dec m e" by (cases d)
  obtain m2 e2 where d': "d' = Dec m2 e2" by (cases d')
  show ?thesis using norm_dec_canonical [of m e m2 e2] v d d'
    by (simp add: numberToString_def)
qed

lemma isDigit_facts:
  "isDigit c \<Longrightarrow> \<not> isWs c \<and> c \<noteq> CHR ''-'' \<and> c \<noteq> CHR ''+'' \<and> c \<noteq> CHR ''.''
     \<and> c \<noteq> CHR ''e'' \<and> c \<noteq> CHR ''E'' \<and> c \<noteq> CHR ''I'' \<and> c \<noteq> CHR '','' \<and> c \<noteq> CHR ''%''
     \<and> c \<noteq> CHR ''('' \<and> c \<noteq> CHR '')'' \<and> c \<noteq> CHR ''#''"
  by (auto simp: isDigit_def isWs_def)

lemma takeWhile_digits:
  assumes "\<forall>c\<in>set ds. isDigit c" and "rest = [] \<or> \<not> isDigit (hd rest)"
  shows "takeWhile isDigit (ds @ rest) = ds" and "dropWhile isDigit (ds @ rest) = rest"
proof -
  have t: "takeWhile isDigit rest = []" and d: "dropWhile isDigit rest = rest"
    using assms(2) by (cases rest; simp)+
  show "takeWhile isDigit (ds @ rest) = ds" using assms(1) t by (simp add: takeWhile_append2)
  show "dropWhile isDigit (ds @ rest) = rest" using assms(1) d by (simp add: dropWhile_append2)
qed

lemma parseExponent_nil [simp]: "parseExponent [] = 0"
  by (simp add: parseExponent_def)

lemma parseExponent_minus:
  "parseExponent (''e-'' @ showNat j) = - int j"
proof -
  have "\<forall>c\<in>set (showNat j). isDigit c" using showNat_digits by blast
  then have t: "takeWhile isDigit (showNat j) = showNat j" by (simp add: takeWhile_eq_all_conv)
  show ?thesis unfolding parseExponent_def by (simp add: t natOfDigits_showNat Let_def)
qed

lemma parseFloat_core:
  assumes "isDigit c"
  shows "parseFloat (c # t)
    = (let d1 = takeWhile isDigit (c # t);
           r1 = dropWhile isDigit (c # t);
           d2 = (case r1 of [] \<Rightarrow> [] | x # u \<Rightarrow> if x = CHR ''.'' then takeWhile isDigit u else []);
           r2 = (case r1 of [] \<Rightarrow> [] | x # u \<Rightarrow> if x = CHR ''.'' then dropWhile isDigit u else r1)
       in Fin (Dec (int (natOfDigits (d1 @ d2))) (parseExponent r2 - int (length d2))))"
  using isDigit_facts [OF assms] assms
  by (simp add: parseFloat_def Let_def startsWith_def)

text \<open>A literal without a point.\<close>

lemma parseFloat_digits:
  assumes "\<forall>c\<in>set d1. isDigit c" and "d1 \<noteq> []"
    and "rest = [] \<or> (\<not> isDigit (hd rest) \<and> hd rest \<noteq> CHR ''.'')"
  shows "parseFloat (d1 @ rest) = Fin (Dec (int (natOfDigits d1)) (parseExponent rest))"
proof -
  obtain c cs where d1: "d1 = c # cs" using assms(2) by (cases d1) auto
  have c: "isDigit c" using assms(1) d1 by simp
  define t where "t = cs @ rest"
  have e: "d1 @ rest = c # t" by (simp add: d1 t_def)
  have "takeWhile isDigit (d1 @ rest) = d1" "dropWhile isDigit (d1 @ rest) = rest"
    using takeWhile_digits [of d1 rest] assms by auto
  then have tw: "takeWhile isDigit (c # t) = d1" and dw: "dropWhile isDigit (c # t) = rest"
    unfolding e by auto
  have r: "(case rest of [] \<Rightarrow> [] | x # u \<Rightarrow> if x = CHR ''.'' then takeWhile isDigit u else []) = []"
    "(case rest of [] \<Rightarrow> [] | x # u \<Rightarrow> if x = CHR ''.'' then dropWhile isDigit u else rest) = rest"
    using assms(3) by (cases rest; auto)+
  have "parseFloat (c # t) = Fin (Dec (int (natOfDigits d1)) (parseExponent rest))"
    by (simp only: parseFloat_core [OF c] tw dw Let_def r) simp
  then show ?thesis unfolding e .
qed

text \<open>A literal with a point.\<close>

lemma parseFloat_point:
  assumes "\<forall>c\<in>set d1. isDigit c" and "d1 \<noteq> []" and "\<forall>c\<in>set d2. isDigit c"
    and "rest = [] \<or> \<not> isDigit (hd rest)"
  shows "parseFloat (d1 @ ''.'' @ d2 @ rest)
           = Fin (Dec (int (natOfDigits (d1 @ d2))) (parseExponent rest - int (length d2)))"
proof -
  obtain c cs where d1: "d1 = c # cs" using assms(2) by (cases d1) auto
  have c: "isDigit c" using assms(1) d1 by simp
  have nd: "\<not> isDigit CHR ''.''" by (simp add: isDigit_def)
  define t where "t = cs @ ''.'' @ d2 @ rest"
  have e: "d1 @ ''.'' @ d2 @ rest = c # t" by (simp add: d1 t_def)
  have "takeWhile isDigit (d1 @ ''.'' @ d2 @ rest) = d1"
    "dropWhile isDigit (d1 @ ''.'' @ d2 @ rest) = ''.'' @ d2 @ rest"
    using takeWhile_digits [of d1 "''.'' @ d2 @ rest"] assms(1) nd by auto
  then have tw: "takeWhile isDigit (c # t) = d1"
    and dw: "dropWhile isDigit (c # t) = ''.'' @ d2 @ rest"
    unfolding e by auto
  have tw2: "takeWhile isDigit (d2 @ rest) = d2" and dw2: "dropWhile isDigit (d2 @ rest) = rest"
    using takeWhile_digits [of d2 rest] assms(3,4) by auto
  have "parseFloat (c # t)
          = Fin (Dec (int (natOfDigits (d1 @ d2))) (parseExponent rest - int (length d2)))"
    by (simp only: parseFloat_core [OF c] tw dw Let_def) (simp add: tw2 dw2)
  then show ?thesis unfolding e .
qed

lemma showNat_all_digits: "\<forall>c\<in>set (showNat n). isDigit c"
  using showNat_digits by blast

lemma showPos_roundtrip:
  assumes "0 < m" and "int (length (showNat m)) + e \<le> 21"
  shows "\<exists>d. parseFloat (showPos m e) = Fin d \<and> dec_val d = of_nat m * 10 powi e"
proof -
  define ds where "ds = showNat m"
  define k where "k = int (length ds)"
  define n where "n = k + e"
  have dig: "\<forall>c\<in>set ds. isDigit c" unfolding ds_def by (rule showNat_all_digits)
  have ne: "ds \<noteq> []" unfolding ds_def by simp
  have z0: "isDigit CHR ''0''" by (simp add: isDigit_def)
  have pe: "\<And>j. parseExponent (CHR ''e'' # CHR ''-'' # showNat j) = - int j"
    using parseExponent_minus by simp
  have kpos: "1 \<le> k" using ne unfolding k_def by (cases ds) auto
  have val: "natOfDigits ds = m" unfolding ds_def by (rule natOfDigits_showNat)
  have n21: "n \<le> 21" using assms(2) unfolding n_def k_def ds_def .
  have sp: "showPos m e =
     (if k \<le> n \<and> n \<le> 21 then ds @ replicate (nat (n - k)) CHR ''0''
      else if 0 < n \<and> n \<le> 21 then take (nat n) ds @ ''.'' @ drop (nat n) ds
      else if - 6 < n \<and> n \<le> 0 then ''0.'' @ replicate (nat (- n)) CHR ''0'' @ ds
      else (if k = 1 then ds @ ''e'' @ (if n - 1 < 0 then ''-'' else ''+'') @ showNat (nat \<bar>n - 1\<bar>)
            else take 1 ds @ ''.'' @ drop 1 ds @ ''e'' @ (if n - 1 < 0 then ''-'' else ''+'')
                 @ showNat (nat \<bar>n - 1\<bar>)))"
    unfolding showPos_def ds_def k_def n_def Let_def by simp
  consider (int) "k \<le> n" | (mid) "0 < n" "n < k" | (small) "- 6 < n" "n \<le> 0" | (tiny) "n \<le> - 6"
    by linarith
  then show ?thesis
  proof cases
    case int
    then have e0: "0 \<le> e" unfolding n_def by simp
    have str: "showPos m e = (ds @ replicate (nat e) CHR ''0'') @ []"
      using int n21 sp unfolding n_def by simp
    have d1: "\<forall>c\<in>set (ds @ replicate (nat e) CHR ''0''). isDigit c"
      using dig z0 by auto
    have "parseFloat (showPos m e)
            = Fin (Dec (int (natOfDigits (ds @ replicate (nat e) CHR ''0''))) (parseExponent []))"
      unfolding str by (rule parseFloat_digits) (use d1 ne in auto)
    moreover have "natOfDigits (ds @ replicate (nat e) CHR ''0'') = m * 10 ^ nat e"
      by (simp add: natOfDigits_append val natOfDigits_zeros)
    ultimately show ?thesis using e0 by (simp add: dec_val_powi power_int_def)
  next
    case mid
    have str: "showPos m e = take (nat n) ds @ ''.'' @ drop (nat n) ds @ []"
      using mid n21 sp by simp
    have t: "take (nat n) ds \<noteq> []" using mid ne by simp
    have "parseFloat (showPos m e)
            = Fin (Dec (int (natOfDigits (take (nat n) ds @ drop (nat n) ds)))
                       (parseExponent [] - int (length (drop (nat n) ds))))"
      unfolding str
      by (rule parseFloat_point) (use dig t in \<open>auto dest: in_set_takeD in_set_dropD\<close>)
    moreover have "int (length (drop (nat n) ds)) = k - n"
      using mid unfolding k_def by simp
    ultimately show ?thesis using val unfolding n_def by (simp add: dec_val_powi)
  next
    case small
    have str: "showPos m e = ''0'' @ ''.'' @ (replicate (nat (- n)) CHR ''0'' @ ds) @ []"
      using small kpos sp by simp
    have d2: "\<forall>c\<in>set (replicate (nat (- n)) CHR ''0'' @ ds). isDigit c"
      using dig z0 by auto
    have pf: "parseFloat (showPos m e)
            = Fin (Dec (int (natOfDigits (''0'' @ (replicate (nat (- n)) CHR ''0'' @ ds))))
                       (parseExponent [] - int (length (replicate (nat (- n)) CHR ''0'' @ ds))))"
      unfolding str by (rule parseFloat_point) (use d2 z0 in auto)
    have X: "natOfDigits (''0'' @ (replicate (nat (- n)) CHR ''0'' @ ds)) = m"
      using natOfDigits_append [of "replicate (Suc (nat (- n))) CHR ''0''" ds]
        natOfDigits_zeros [of "Suc (nat (- n))"] val by simp
    have Y: "parseExponent [] - int (length (replicate (nat (- n)) CHR ''0'' @ ds)) = e"
      using small unfolding k_def n_def by simp
    show ?thesis unfolding pf X Y by (simp add: dec_val_powi)
  next
    case tiny
    have neg: "n - 1 < 0" and ab: "nat \<bar>n - 1\<bar> = nat (1 - n)" using tiny by auto
    have hdE: "\<not> isDigit CHR ''e''" by (simp add: isDigit_def)
    show ?thesis
    proof (cases "k = 1")
      case True
      have str: "showPos m e = ds @ (''e-'' @ showNat (nat (1 - n)))"
        using tiny sp True neg ab kpos by simp
      have "parseFloat (showPos m e)
              = Fin (Dec (int (natOfDigits ds)) (parseExponent (''e-'' @ showNat (nat (1 - n)))))"
        unfolding str by (rule parseFloat_digits) (use dig ne hdE in auto)
      then show ?thesis using val True tiny unfolding n_def
        by (simp add: pe dec_val_powi)
    next
      case False
      have str: "showPos m e = take 1 ds @ ''.'' @ drop 1 ds @ (''e-'' @ showNat (nat (1 - n)))"
        using tiny sp False neg ab kpos by simp
      have t: "take 1 ds \<noteq> []" using ne by (cases ds) auto
      have "parseFloat (showPos m e)
              = Fin (Dec (int (natOfDigits (take 1 ds @ drop 1 ds)))
                         (parseExponent (''e-'' @ showNat (nat (1 - n)))
                          - int (length (drop 1 ds))))"
        unfolding str
        by (rule parseFloat_point) (use dig t hdE in \<open>auto dest: in_set_takeD in_set_dropD\<close>)
      moreover have "int (length (drop 1 ds)) = k - 1" using kpos unfolding k_def by simp
      ultimately show ?thesis using val tiny unfolding n_def
        by (simp add: pe dec_val_powi)
    qed
  qed
qed

lemma numChar_intros:
  "isDigit c \<Longrightarrow> numChar c" "numChar CHR ''.''" "numChar CHR ''e''" "numChar CHR ''-''"
  "numChar CHR ''+''" "numChar CHR ''0''"
  by (simp_all add: numChar_def isDigit_def)

lemma showPos_token:
  "showPos m e \<noteq> [] \<and> (\<forall>c\<in>set (showPos m e). numChar c)"
proof -
  have dig: "\<And>j c. c \<in> set (showNat j) \<Longrightarrow> numChar c"
    using showNat_digits numChar_intros(1) by blast
  have tk: "\<And>j i c. c \<in> set (take i (showNat j)) \<Longrightarrow> numChar c"
    "\<And>j i c. c \<in> set (drop i (showNat j)) \<Longrightarrow> numChar c"
    using dig by (blast dest: in_set_takeD in_set_dropD)+
  show ?thesis
    unfolding showPos_def Let_def
    using dig tk numChar_intros(2-6) by (auto split: if_splits)
qed

lemma numberToString_zero:
  "dec_val (Dec m e) = 0 \<Longrightarrow> numberToString (Fin (Dec m e)) = ''0''"
proof -
  assume "dec_val (Dec m e) = 0"
  then have "m = 0" by (simp add: dec_val_powi)
  then show ?thesis by (simp add: numberToString_def norm_dec.simps)
qed

lemma parseFloat_zero: "parseFloat ''0'' = Fin (Dec 0 0)"
  using parseFloat_digits [of "''0''" "[]"] by (simp add: isDigit_def natOfDigits_def digitVal_def)

lemma numberToString_pos:
  assumes "0 < dec_val (Dec m e)"
  obtains m' e' where "norm_dec m e = (m', e')" "0 < m'"
    "numberToString (Fin (Dec m e)) = showPos (nat m') e'"
    "(of_int m' :: rat) * 10 powi e' = dec_val (Dec m e)"
proof -
  obtain m' e' where n: "norm_dec m e = (m', e')" by (cases "norm_dec m e")
  have p: "(0::rat) < 10 powi e" by simp
  have "0 < (of_int m :: rat) * 10 powi e" using assms by (simp add: dec_val_powi)
  then have "0 < (of_int m :: rat)" using p by (simp add: zero_less_mult_iff)
  then have mpos: "0 < m" by simp
  then have m': "0 < m'" using norm_dec_shape [OF n] by simp
  have s: "numberToString (Fin (Dec m e)) = showPos (nat m') e'"
    using n m' by (simp add: numberToString_def)
  show ?thesis using that [OF n m' s] norm_dec_value [OF n] by (simp add: dec_val_powi)
qed

lemma digits_le_of_bound:
  assumes "0 < m'" and "(of_int m' :: rat) * 10 powi e' \<le> 360"
  shows "int (length (showNat (nat m'))) + e' \<le> 21"
proof -
  define k where "k = length (showNat (nat m'))"
  have b: "10 ^ (k - 1) \<le> nat m'"
    using showNat_bounds [of "nat m'"] assms(1) unfolding k_def by simp
  have kpos: "0 < k" unfolding k_def by simp
  have "(10::rat) ^ (k - 1) \<le> of_nat (nat m')"
    using b by (metis of_nat_le_iff of_nat_numeral of_nat_power)
  then have lo: "(10::rat) powi (int k - 1) \<le> of_int m'"
    using assms(1) kpos by (simp add: power_int_def nat_diff_distrib')
  have p: "(0::rat) < 10 powi e'" by simp
  have "(10::rat) powi (int k - 1 + e') = 10 powi (int k - 1) * 10 powi e'"
    by (simp add: power_int_add)
  also have "\<dots> \<le> of_int m' * 10 powi e'"
    using lo p by (simp add: mult_right_mono)
  also have "\<dots> < 10 powi 3" using assms(2) by simp
  finally have "(10::rat) powi (int k - 1 + e') < 10 powi 3" .
  then have "int k - 1 + e' < 3"
    using power_int_le_imp_less_exp [of "10::rat" "int k - 1 + e'" 3] by simp
  then show ?thesis unfolding k_def by simp
qed

lemma numberToString_roundtrip:
  assumes "0 \<le> dec_val d" and "dec_val d \<le> 360"
  shows "\<exists>d'. parseFloat (numberToString (Fin d)) = Fin d' \<and> dec_val d' = dec_val d"
proof -
  obtain m e where d: "d = Dec m e" by (cases d)
  show ?thesis
  proof (cases "dec_val d = 0")
    case True
    then show ?thesis using d numberToString_zero [of m e] parseFloat_zero
      by (simp add: dec_val_powi)
  next
    case False
    then have pos: "0 < dec_val (Dec m e)" using assms(1) d by simp
    from numberToString_pos [OF pos] obtain m' e' where
      n: "norm_dec m e = (m', e')" and m': "0 < m'"
      and s: "numberToString (Fin (Dec m e)) = showPos (nat m') e'"
      and v: "(of_int m' :: rat) * 10 powi e' = dec_val (Dec m e)" by blast
    have len: "int (length (showNat (nat m'))) + e' \<le> 21"
      using digits_le_of_bound [OF m'] v assms(2) d by simp
    have "0 < nat m'" using m' by simp
    from showPos_roundtrip [OF this len] obtain d' where
      "parseFloat (showPos (nat m') e') = Fin d'" "dec_val d' = of_nat (nat m') * 10 powi e'"
      by blast
    then show ?thesis using s v m' d by auto
  qed
qed

lemma numberToString_token:
  assumes "0 \<le> dec_val d"
  shows "numberToString (Fin d) \<noteq> [] \<and> (\<forall>c\<in>set (numberToString (Fin d)). numChar c)"
proof -
  obtain m e where d: "d = Dec m e" by (cases d)
  show ?thesis
  proof (cases "dec_val d = 0")
    case True
    then show ?thesis using d numberToString_zero [of m e] numChar_intros(6) by simp
  next
    case False
    then have pos: "0 < dec_val (Dec m e)" using assms(1) d by simp
    from numberToString_pos [OF pos] obtain m' e' where
      s: "numberToString (Fin (Dec m e)) = showPos (nat m') e'" by blast
    show ?thesis using s d showPos_token [of "nat m'" e'] by simp
  qed
qed

lemma dec_val_int [simp]: "dec_val (Dec i 0) = of_int i"
  by (simp add: dec_val_powi)

lemma orZero_not_NaN: "orZero x \<noteq> NaN"
  by (cases x) (simp_all add: orZero_def numOfInt_def)

lemma clamp_inRange:
  assumes "y \<noteq> NaN" and "0 \<le> hi"
  shows "inRange hi (mathMax (numOfInt 0) (mathMin (numOfInt hi) y))"
  using assms by (cases y) (auto simp: inRange_def numOfInt_def)

lemma clamp_keeps_value:
  assumes "0 \<le> dec_val d" and "dec_val d \<le> of_int hi"
  shows "\<exists>d'. mathMax (numOfInt 0) (mathMin (numOfInt hi) (orZero (Fin d))) = Fin d'
              \<and> dec_val d' = dec_val d"
  using assms by (auto simp: orZero_def numOfInt_def)

lemma clampRead_numberToString:
  assumes "inRange hi x" and "hi \<le> 360"
  shows "numberToString (clampRead hi (numberToString x)) = numberToString x"
proof -
  obtain d where x: "x = Fin d" and lo: "0 \<le> dec_val d" and up: "dec_val d \<le> of_int hi"
    using assms(1) by (cases x) (auto simp: inRange_def)
  have "(of_int hi :: rat) \<le> of_int 360" using assms(2) by (simp only: of_int_le_iff)
  then have "dec_val d \<le> 360" using up by simp
  from numberToString_roundtrip [OF lo this] obtain d' where
    p: "parseFloat (numberToString (Fin d)) = Fin d'" and v: "dec_val d' = dec_val d" by blast
  from clamp_keeps_value [of d' hi] lo up v obtain d'' where
    c: "mathMax (numOfInt 0) (mathMin (numOfInt hi) (orZero (Fin d'))) = Fin d''"
    and v': "dec_val d'' = dec_val d'" by auto
  show ?thesis
    unfolding clampRead_def x p c using numberToString_canonical [of d'' d] v v' by simp
qed

lemma numChar_facts:
  "numChar c \<Longrightarrow> \<not> isWs c \<and> c \<noteq> CHR '','' \<and> c \<noteq> CHR ''%'' \<and> c \<noteq> CHR ''('' \<and> c \<noteq> CHR '')''"
  by (auto simp: numChar_def isDigit_def isWs_def)

lemma inRange_tok: "inRange hi x \<Longrightarrow> tok (numberToString x)"
  using numberToString_token by (cases x) (auto simp: inRange_def tok_def)

lemma stripHslWrapper_id:
  "CHR ''('' \<notin> set s \<Longrightarrow> CHR '')'' \<notin> set s \<Longrightarrow> stripHslWrapper s = s"
proof (induction s)
  case Nil
  show ?case by simp
next
  case (Cons c cs)
  have "\<not> startsWith (c # cs) ''hsl(''"
  proof
    assume "startsWith (c # cs) ''hsl(''"
    then have "take (length ''hsl('') (c # cs) = ''hsl(''" by (simp only: startsWith_def)
    then have "set ''hsl('' \<subseteq> set (c # cs)" by (metis set_take_subset)
    then have "CHR ''('' \<in> set (c # cs)" by auto
    then show False using Cons.prems by simp
  qed
  then show ?case using Cons by auto
qed

lemma splitAtWs_nonempty [simp]: "splitAtWs s \<noteq> []"
  by (induction s) (auto split: list.splits)

lemma splitAtWs_word: "\<forall>c\<in>set a. \<not> isWs c \<Longrightarrow> splitAtWs a = [a]"
  by (induction a) auto

lemma splitAtWs_word_ws:
  "\<forall>c\<in>set a. \<not> isWs c \<Longrightarrow> isWs w \<Longrightarrow> splitAtWs (a @ w # rest) = a # splitAtWs rest"
  by (induction a) (auto split: list.splits)

lemma trim_id:
  assumes "s \<noteq> []" and "\<not> isWs (hd s)" and "\<not> isWs (last s)"
  shows "trim s = s"
proof -
  have a: "dropWhile isWs s = s" using assms(1,2) by (cases s) auto
  have "hd (rev s) = last s" using assms(1) by (simp add: hd_rev)
  then have b: "dropWhile isWs (rev s) = rev s"
    using assms(3) by (simp add: dropWhile_eq_self_iff)
  show ?thesis by (simp add: trim_def a b)
qed

lemma trim_snoc_ws:
  assumes "s \<noteq> []" and "\<not> isWs (hd s)" and "\<not> isWs (last s)" and "isWs w"
  shows "trim (s @ [w]) = s"
proof -
  have a: "dropWhile isWs (s @ [w]) = s @ [w]" using assms(1,2) by (cases s) auto
  have "hd (rev s) = last s" using assms(1) by (simp add: hd_rev)
  then have b: "dropWhile isWs (rev s) = rev s"
    using assms(3) by (simp add: dropWhile_eq_self_iff)
  show ?thesis using assms(4) by (simp add: trim_def a b)
qed

lemma tok_facts:
  assumes "tok a"
  shows "a \<noteq> []" "\<forall>x\<in>set a. \<not> isWs x" "CHR ''('' \<notin> set a" "CHR '')'' \<notin> set a"
    "CHR '','' \<notin> set a" "CHR ''%'' \<notin> set a"
proof -
  show "a \<noteq> []" using assms by (simp add: tok_def)
  have n: "\<And>x. x \<in> set a \<Longrightarrow> numChar x" using assms by (simp add: tok_def)
  show "\<forall>x\<in>set a. \<not> isWs x" using n numChar_facts by blast
  show "CHR ''('' \<notin> set a" using n numChar_facts by blast
  show "CHR '')'' \<notin> set a" using n numChar_facts by blast
  show "CHR '','' \<notin> set a" using n numChar_facts by blast
  show "CHR ''%'' \<notin> set a" using n numChar_facts by blast
qed

lemma commaPercentToSpace_id:
  "CHR '','' \<notin> set a \<Longrightarrow> CHR ''%'' \<notin> set a \<Longrightarrow> commaPercentToSpace a = a"
  unfolding commaPercentToSpace_def by (induction a) auto

lemma commaPercentToSpace_append:
  "commaPercentToSpace (a @ b) = commaPercentToSpace a @ commaPercentToSpace b"
  by (simp add: commaPercentToSpace_def)

lemma parseHSL_triplet:
  assumes "tok a" and "tok b" and "tok c"
  shows "parseHSL (a @ '' '' @ b @ ''% '' @ c @ ''%'')
           = Some \<lparr> hsl_h = clampRead 360 a, hsl_s = clampRead 100 b, hsl_l = clampRead 100 c \<rparr>"
proof -
  let ?s = "a @ '' '' @ b @ ''% '' @ c @ ''%''"
  note ta = tok_facts [OF assms(1)] and tb = tok_facts [OF assms(2)]
    and tc = tok_facts [OF assms(3)]
  have sp: "isWs CHR '' ''" by (simp add: isWs_def)
  have "CHR ''('' \<notin> set ?s" "CHR '')'' \<notin> set ?s"
    using ta(3,4) tb(3,4) tc(3,4) by simp_all
  then have st: "stripHslWrapper ?s = ?s" by (rule stripHslWrapper_id)
  have k: "commaPercentToSpace '' '' = '' ''" "commaPercentToSpace ''% '' = ''  ''"
    "commaPercentToSpace ''%'' = '' ''"
    by (simp_all add: commaPercentToSpace_def)
  have cp: "commaPercentToSpace ?s = (a @ '' '' @ b @ ''  '' @ c) @ '' ''"
    by (simp only: commaPercentToSpace_append k commaPercentToSpace_id [OF ta(5,6)]
        commaPercentToSpace_id [OF tb(5,6)] commaPercentToSpace_id [OF tc(5,6)] append_assoc)
  have hd1: "\<not> isWs (hd (a @ '' '' @ b @ ''  '' @ c))"
    using ta(1,2) by (cases a) simp_all
  have la1: "\<not> isWs (last (a @ '' '' @ b @ ''  '' @ c))"
    using tc(1,2) by simp
  have ne1: "a @ '' '' @ b @ ''  '' @ c \<noteq> []" using ta(1) by simp
  have tr: "trim (commaPercentToSpace ?s) = a @ '' '' @ b @ ''  '' @ c"
    unfolding cp using ne1 hd1 la1 sp by (rule trim_snoc_ws)
  have e: "splitAtWs [] = [[]]" by simp
  have s3: "splitAtWs (CHR '' '' # c) = [] # splitAtWs c"
    using sp by simp
  have "splitAtWs (a @ CHR '' '' # (b @ CHR '' '' # (CHR '' '' # c)))
          = a # b # [] # [c]"
    unfolding splitAtWs_word_ws [OF ta(2) sp] splitAtWs_word_ws [OF tb(2) sp] s3
      splitAtWs_word [OF tc(2)] by (rule refl)
  then have "splitAtWs (a @ '' '' @ b @ ''  '' @ c) = a # b # [] # [c]" by simp
  then have parts: "splitWsNonEmpty (a @ '' '' @ b @ ''  '' @ c) = [a, b, c]"
    using ta(1) tb(1) tc(1) by (simp add: splitWsNonEmpty_def)
  show ?thesis
    unfolding parseHSL_def st tr parts Let_def clampRead_def by simp
qed

lemma formatHSL_plain:
  "formatHSL hsl False = numberToString (hsl_h hsl) @ '' '' @ numberToString (hsl_s hsl) @ ''% ''
     @ numberToString (hsl_l hsl) @ ''%''"
  by (simp add: formatHSL_def)

lemma normalize_formatted:
  assumes "inRange 360 (hsl_h hsl)" and "inRange 100 (hsl_s hsl)" and "inRange 100 (hsl_l hsl)"
  shows "normalizeColorValueToHslTriplet env (formatHSL hsl False) = formatHSL hsl False"
proof -
  define a where "a = numberToString (hsl_h hsl)"
  define b where "b = numberToString (hsl_s hsl)"
  define c where "c = numberToString (hsl_l hsl)"
  have t: "tok a" "tok b" "tok c"
    unfolding a_def b_def c_def using assms inRange_tok by blast+
  note ta = tok_facts [OF t(1)]
  have f: "formatHSL hsl False = a @ '' '' @ b @ ''% '' @ c @ ''%''"
    unfolding a_def b_def c_def by (rule formatHSL_plain)
  have hd1: "\<not> isWs (hd (a @ '' '' @ b @ ''% '' @ c @ ''%''))"
    using ta(1,2) by (cases a) simp_all
  have la1: "\<not> isWs (last (a @ '' '' @ b @ ''% '' @ c @ ''%''))"
    by (simp add: isWs_def)
  have ne1: "a @ '' '' @ b @ ''% '' @ c @ ''%'' \<noteq> []" by simp
  have tr: "trim (formatHSL hsl False) = formatHSL hsl False"
    unfolding f using ne1 hd1 la1 by (rule trim_id)
  have p: "parseHSL (formatHSL hsl False)
             = Some \<lparr> hsl_h = clampRead 360 a, hsl_s = clampRead 100 b,
                      hsl_l = clampRead 100 c \<rparr>"
    unfolding f by (rule parseHSL_triplet [OF t])
  have r: "numberToString (clampRead 360 a) = a" "numberToString (clampRead 100 b) = b"
    "numberToString (clampRead 100 c) = c"
    unfolding a_def b_def c_def
    using clampRead_numberToString [OF assms(1)] clampRead_numberToString [OF assms(2)]
      clampRead_numberToString [OF assms(3)]
    by simp_all
  have "formatHSL \<lparr> hsl_h = clampRead 360 a, hsl_s = clampRead 100 b,
                    hsl_l = clampRead 100 c \<rparr> False = formatHSL hsl False"
    unfolding f by (simp add: formatHSL_def r)
  then show ?thesis
    unfolding normalizeColorValueToHslTriplet_def Let_def tr p by simp
qed

lemma parseHSL_inRange:
  assumes "parseHSL s = Some hsl"
  shows "inRange 360 (hsl_h hsl)" "inRange 100 (hsl_s hsl)" "inRange 100 (hsl_l hsl)"
proof -
  note c = clamp_inRange [OF orZero_not_NaN]
  from assms obtain ps where
    h: "hsl = \<lparr> hsl_h = mathMax (numOfInt 0) (mathMin (numOfInt 360) (orZero (parseFloat (ps ! 0)))),
                 hsl_s = mathMax (numOfInt 0) (mathMin (numOfInt 100) (orZero (parseFloat (ps ! 1)))),
                 hsl_l = mathMax (numOfInt 0) (mathMin (numOfInt 100) (orZero (parseFloat (ps ! 2)))) \<rparr>"
    by (auto simp: parseHSL_def Let_def split: if_splits)
  show "inRange 360 (hsl_h hsl)" unfolding h using c [of 360] by simp
  show "inRange 100 (hsl_s hsl)" unfolding h using c [of 100] by simp
  show "inRange 100 (hsl_l hsl)" unfolding h using c [of 100] by simp
qed

lemma normalize_idempotent_hsl:
  assumes "parseHSL (trim x) = Some hsl"
  shows "normalizeColorValueToHslTriplet env (normalizeColorValueToHslTriplet env x)
           = normalizeColorValueToHslTriplet env x"
proof -
  have "normalizeColorValueToHslTriplet env x = formatHSL hsl False"
    using assms by (simp add: normalizeColorValueToHslTriplet_def)
  then show ?thesis using normalize_formatted [OF parseHSL_inRange [OF assms]] by simp
qed

lemma isIntIn_inRange: "isIntIn hi x \<Longrightarrow> inRange hi x"
  by (auto simp: isIntIn_def inRange_def split: jsnum.splits dec.splits)

lemma mathRound_isIntIn:
  assumes "0 \<le> x" and "x \<le> of_int hi"
  shows "isIntIn hi (mathRound x)"
proof -
  have "0 \<le> floor (x + 1 / 2)" using assms(1) by simp
  moreover have "x + 1 / 2 < of_int (hi + 1)" using assms(2) by simp
  then have "floor (x + 1 / 2) < hi + 1" by (simp only: floor_less_iff)
  ultimately show ?thesis by (simp add: mathRound_def numOfInt_def isIntIn_def)
qed

lemma quotient_bounds:
  fixes x d :: rat
  assumes "0 < d" and "- d \<le> x" and "x \<le> d"
  shows "- 1 \<le> x / d" and "x / d \<le> 1"
  using assms by (simp_all add: field_simps)

lemma percent_bounds:
  fixes q :: rat
  assumes "0 \<le> q" and "q \<le> 1"
  shows "0 \<le> q * 100" and "q * 100 \<le> of_int 100"
  using assms by simp_all

lemma hue_bounds:
  fixes q :: rat
  assumes "0 \<le> q" and "q \<le> 6"
  shows "0 \<le> q / 6 * 360" and "q / 6 * 360 \<le> of_int 360"
  using assms by simp_all

lemma rgbToHsl_bounds:
  assumes "0 \<le> rgb_r rgb" "rgb_r rgb \<le> 255" "0 \<le> rgb_g rgb" "rgb_g rgb \<le> 255"
    "0 \<le> rgb_b rgb" "rgb_b rgb \<le> 255"
  shows "isIntIn 360 (hsl_h (rgbToHsl rgb)) \<and> isIntIn 100 (hsl_s (rgbToHsl rgb))
       \<and> isIntIn 100 (hsl_l (rgbToHsl rgb))"
proof -
  define r where "r = rgb_r rgb / 255"
  define g where "g = rgb_g rgb / 255"
  define b where "b = rgb_b rgb / 255"
  define mx where "mx = max (max r g) b"
  define mn where "mn = min (min r g) b"
  define l where "l = (mx + mn) / 2"
  define den where "den = (if l > 1 / 2 then 2 - mx - mn else mx + mn)"
  define h0 where "h0 = (if mx = r then (g - b) / (mx - mn) + (if g < b then 6 else 0)
                    else if mx = g then (b - r) / (mx - mn) + 2
                    else (r - g) / (mx - mn) + 4)"
  have eq: "rgbToHsl rgb =
     (if mx - mn \<noteq> 0 then
        \<lparr> hsl_h = mathRound (h0 / 6 * 360),
          hsl_s = (if den = 0 then PosInf else mathRound ((mx - mn) / den * 100)),
          hsl_l = mathRound (l * 100) \<rparr>
      else \<lparr> hsl_h = mathRound (0 * 360), hsl_s = mathRound (0 * 100),
             hsl_l = mathRound (l * 100) \<rparr>)"
    unfolding rgbToHsl_def Let_def h0_def den_def l_def mn_def mx_def b_def g_def r_def
    by (rule refl)
  have rb: "0 \<le> r" "r \<le> 1" "0 \<le> g" "g \<le> 1" "0 \<le> b" "b \<le> 1"
    using assms unfolding r_def g_def b_def by simp_all
  have mb: "0 \<le> mn" "mn \<le> mx" "mx \<le> 1"
    "mn \<le> r" "mn \<le> g" "mn \<le> b" "r \<le> mx" "g \<le> mx" "b \<le> mx"
    using rb unfolding mx_def mn_def by auto
  have l01: "0 \<le> l" "l \<le> 1" using mb unfolding l_def by simp_all
  have lb: "0 \<le> l * 100" "l * 100 \<le> of_int 100"
    by (rule percent_bounds [OF l01])+
  have L: "isIntIn 100 (mathRound (l * 100))" using lb by (rule mathRound_isIntIn)
  have Z: "isIntIn 360 (mathRound (0 * 360))" "isIntIn 100 (mathRound (0 * 100))"
    by (rule mathRound_isIntIn; simp)+
  show ?thesis
  proof (cases "mx - mn = 0")
    case True
    have "rgbToHsl rgb = \<lparr> hsl_h = mathRound (0 * 360), hsl_s = mathRound (0 * 100),
             hsl_l = mathRound (l * 100) \<rparr>"
      using True by (simp only: eq not_True_eq_False if_False simp_thms)
    then show ?thesis using L Z by (simp only: HSLColor.simps simp_thms)
  next
    case False
    then have dpos: "0 < mx - mn" using mb by simp
    have dge: "mx - mn \<le> den" using mb unfolding den_def by auto
    then have denpos: "0 < den" using dpos by simp
    have q: "0 \<le> (mx - mn) / den" "(mx - mn) / den \<le> 1"
      using dpos dge denpos by (simp_all add: field_simps)
    have sb: "0 \<le> (mx - mn) / den * 100" "(mx - mn) / den * 100 \<le> of_int 100"
      by (rule percent_bounds [OF q])+
    have S: "isIntIn 100 (mathRound ((mx - mn) / den * 100))" using sb by (rule mathRound_isIntIn)
    have q1: "- 1 \<le> (g - b) / (mx - mn)" "(g - b) / (mx - mn) \<le> 1"
      by (rule quotient_bounds [OF dpos]; use mb in linarith)+
    have q2: "- 1 \<le> (b - r) / (mx - mn)" "(b - r) / (mx - mn) \<le> 1"
      by (rule quotient_bounds [OF dpos]; use mb in linarith)+
    have q3: "- 1 \<le> (r - g) / (mx - mn)" "(r - g) / (mx - mn) \<le> 1"
      by (rule quotient_bounds [OF dpos]; use mb in linarith)+
    have q1p: "b \<le> g \<Longrightarrow> 0 \<le> (g - b) / (mx - mn)"
      using dpos by simp
    have q1n: "g < b \<Longrightarrow> (g - b) / (mx - mn) \<le> 0"
      using dpos by (simp add: divide_le_0_iff)
    have h0b: "0 \<le> h0 \<and> h0 \<le> 6"
    proof -
      consider (c1) "mx = r" "b \<le> g" | (c2) "mx = r" "g < b"
        | (c3) "mx \<noteq> r" "mx = g" | (c4) "mx \<noteq> r" "mx \<noteq> g"
        by fastforce
      then show ?thesis
      proof cases
        case c1
        then have "h0 = (g - b) / (mx - mn) + 0" unfolding h0_def by simp
        then show ?thesis using q1 q1p [OF c1(2)] by linarith
      next
        case c2
        then have "h0 = (g - b) / (mx - mn) + 6" unfolding h0_def by simp
        then show ?thesis using q1 q1n [OF c2(2)] by linarith
      next
        case c3
        then have "h0 = (b - r) / (mx - mn) + 2" unfolding h0_def by simp
        then show ?thesis using q2 by linarith
      next
        case c4
        then have "h0 = (r - g) / (mx - mn) + 4" unfolding h0_def by simp
        then show ?thesis using q3 by linarith
      qed
    qed
    have hb: "0 \<le> h0 / 6 * 360" "h0 / 6 * 360 \<le> of_int 360"
      using hue_bounds [of h0] h0b by simp_all
    have H: "isIntIn 360 (mathRound (h0 / 6 * 360))" using hb by (rule mathRound_isIntIn)
    have dn: "den \<noteq> 0" using denpos by simp
    have "rgbToHsl rgb = \<lparr> hsl_h = mathRound (h0 / 6 * 360),
          hsl_s = mathRound ((mx - mn) / den * 100), hsl_l = mathRound (l * 100) \<rparr>"
      using False dn by (simp only: eq if_True if_False simp_thms)
    then show ?thesis using H S L by (simp only: HSLColor.simps simp_thms)
  qed
qed

lemma hexDigitVal_range: "hexDigitVal c = Some v \<Longrightarrow> v < 16"
  unfolding hexDigitVal_def by (auto split: if_splits)

lemma not_hex:
  "\<not> isHexDigit CHR ''#''" "\<not> isHexDigit CHR '',''" "\<not> isHexDigit CHR ''%''"
  "\<not> isHexDigit CHR ''(''" "\<not> isHexDigit CHR '')''" "\<not> isHexDigit CHR ''-''"
  "\<not> isHexDigit CHR ''+''" "\<not> isHexDigit CHR ''x''" "\<not> isHexDigit CHR ''X''"
  "\<not> isHexDigit CHR 0x09" "\<not> isHexDigit CHR 0x0A" "\<not> isHexDigit CHR 0x0B"
  "\<not> isHexDigit CHR 0x0C" "\<not> isHexDigit CHR 0x0D" "\<not> isHexDigit CHR '' ''"
  by (simp_all add: isHexDigit_def hexDigitVal_def lowerChar_def)

lemma hexDigit_facts:
  assumes "isHexDigit c"
  shows "\<not> isWs c" "c \<noteq> CHR ''#''" "c \<noteq> CHR '',''" "c \<noteq> CHR ''%''" "c \<noteq> CHR ''(''"
    "c \<noteq> CHR '')''" "c \<noteq> CHR ''-''" "c \<noteq> CHR ''+''" "c \<noteq> CHR ''x''" "c \<noteq> CHR ''X''"
  using assms not_hex by (auto simp: isWs_def)

lemma parseInt16_pair:
  assumes "isHexDigit x" and "isHexDigit y"
  shows "\<exists>v. parseInt16 [x, y] = Some v \<and> 0 \<le> v \<and> v \<le> 255"
proof -
  obtain vx vy where vx: "hexDigitVal x = Some vx" and vy: "hexDigitVal y = Some vy"
    using assms by (auto simp: isHexDigit_def)
  have r: "vx < 16" "vy < 16" using vx vy hexDigitVal_range by blast+
  note fx = hexDigit_facts [OF assms(1)] and fy = hexDigit_facts [OF assms(2)]
  have ly: "lowerChar y \<noteq> CHR ''x''"
  proof
    assume a: "lowerChar y = CHR ''x''"
    have "hexDigitVal y = None" unfolding hexDigitVal_def a by simp
    then show False using vy by simp
  qed
  have sw: "\<not> startsWith (toLowerCase [x, y]) ''0x''"
    using ly by (simp add: startsWith_def toLowerCase_def)
  have d: "dropWhile isWs [x, y] = [x, y]" using fx(1) by simp
  have "parseInt16 [x, y] = Some (int (16 * vx + vy))"
    unfolding parseInt16_def d Let_def using sw fx(7,8) vx vy by simp
  then show ?thesis using r by auto
qed

lemma removeFirst_absent: "x \<notin> set s \<Longrightarrow> removeFirst x s = s"
  by (induction s) auto

lemma hexColor_body:
  assumes "isHexColor t"
  obtains h where "removeFirst CHR ''#'' t = h" "length h = 3 \<or> length h = 6"
    "\<forall>c\<in>set h. isHexDigit c" "t = h \<or> t = CHR ''#'' # h"
proof -
  define h where "h = (case t of [] \<Rightarrow> [] | c # r \<Rightarrow> if c = CHR ''#'' then r else t)"
  have len: "length h = 3 \<or> length h = 6" and hx: "\<forall>c\<in>set h. isHexDigit c"
    using assms unfolding isHexColor_def h_def Let_def by (auto simp: list_all_iff)
  have nh: "CHR ''#'' \<notin> set h" using hx not_hex(1) by blast
  have t: "t = h \<or> t = CHR ''#'' # h" unfolding h_def by (cases t) auto
  have "removeFirst CHR ''#'' t = h"
    using t removeFirst_absent [OF nh] by auto
  then show ?thesis using that len hx t by blast
qed

lemma hexColor_chars:
  assumes "isHexColor t"
  shows "t \<noteq> []" "\<forall>c\<in>set t. \<not> isWs c" "CHR ''('' \<notin> set t" "CHR '')'' \<notin> set t"
    "CHR '','' \<notin> set t" "CHR ''%'' \<notin> set t"
proof -
  from hexColor_body [OF assms] obtain h where
    len: "length h = 3 \<or> length h = 6" and hx: "\<forall>c\<in>set h. isHexDigit c"
    and t: "t = h \<or> t = CHR ''#'' # h" by blast
  have hne: "h \<noteq> []" using len by auto
  have w: "\<not> isWs CHR ''#''" by (simp add: isWs_def)
  show "t \<noteq> []" using t hne by auto
  show "\<forall>c\<in>set t. \<not> isWs c" using t hx hexDigit_facts(1) w by auto
  show "CHR ''('' \<notin> set t" using t hx not_hex(4) by auto
  show "CHR '')'' \<notin> set t" using t hx not_hex(5) by auto
  show "CHR '','' \<notin> set t" using t hx not_hex(2) by auto
  show "CHR ''%'' \<notin> set t" using t hx not_hex(3) by auto
qed

lemma parseHSL_hexColor:
  assumes "isHexColor t"
  shows "parseHSL t = None"
proof -
  note c = hexColor_chars [OF assms]
  have st: "stripHslWrapper t = t" using c(3,4) by (rule stripHslWrapper_id)
  have cp: "commaPercentToSpace t = t" using c(5,6) by (rule commaPercentToSpace_id)
  have "\<not> isWs (hd t)" "\<not> isWs (last t)" using c(1,2) by simp_all
  then have tr: "trim t = t" using c(1) by (simp add: trim_id)
  have parts: "splitWsNonEmpty t = [t]"
    using splitAtWs_word [OF c(2)] c(1) by (simp add: splitWsNonEmpty_def)
  show ?thesis unfolding parseHSL_def st cp tr parts Let_def by simp
qed

lemma parseHex_six:
  assumes "\<forall>c\<in>set h. isHexDigit c" and "length h = 6"
  shows "\<exists>r g b. (case (parseInt16 (take 2 h), parseInt16 (take 2 (drop 2 h)),
                        parseInt16 (take 2 (drop 4 h))) of
                    (Some r, Some g, Some b) \<Rightarrow>
                      Some \<lparr> rgb_r = of_int r, rgb_g = of_int g, rgb_b = of_int b \<rparr>
                  | _ \<Rightarrow> None)
                 = Some \<lparr> rgb_r = of_int r, rgb_g = of_int g, rgb_b = of_int b \<rparr>
               \<and> 0 \<le> r \<and> r \<le> 255 \<and> 0 \<le> g \<and> g \<le> 255 \<and> 0 \<le> b \<and> b \<le> 255"
proof -
  obtain a1 a2 a3 a4 a5 a6 where h: "h = [a1, a2, a3, a4, a5, a6]"
    using assms(2) by (auto simp: eval_nat_numeral length_Suc_conv)
  have x: "isHexDigit a1" "isHexDigit a2" "isHexDigit a3" "isHexDigit a4" "isHexDigit a5"
    "isHexDigit a6" using assms(1) h by simp_all
  obtain r where r: "parseInt16 [a1, a2] = Some r" "0 \<le> r" "r \<le> 255"
    using parseInt16_pair [OF x(1,2)] by blast
  obtain g where g: "parseInt16 [a3, a4] = Some g" "0 \<le> g" "g \<le> 255"
    using parseInt16_pair [OF x(3,4)] by blast
  obtain b where b: "parseInt16 [a5, a6] = Some b" "0 \<le> b" "b \<le> 255"
    using parseInt16_pair [OF x(5,6)] by blast
  show ?thesis using r g b unfolding h by (intro exI [of _ r] exI [of _ g] exI [of _ b]) simp
qed

lemma parseHex_hexColor:
  assumes "isHexColor t"
  shows "\<exists>rgb. parseHex t = Some rgb \<and> 0 \<le> rgb_r rgb \<and> rgb_r rgb \<le> 255
           \<and> 0 \<le> rgb_g rgb \<and> rgb_g rgb \<le> 255 \<and> 0 \<le> rgb_b rgb \<and> rgb_b rgb \<le> 255"
proof -
  from hexColor_body [OF assms] obtain h where
    rf: "removeFirst CHR ''#'' t = h" and len: "length h = 3 \<or> length h = 6"
    and hx: "\<forall>c\<in>set h. isHexDigit c" by blast
  define hex where "hex = (if length h = 3 then concat (map (\<lambda>c. [c, c]) h) else h)"
  have l6: "length hex = 6"
  proof (cases "length h = 3")
    case True
    then obtain a b c where "h = [a, b, c]" by (auto simp: eval_nat_numeral length_Suc_conv)
    then show ?thesis unfolding hex_def by simp
  next
    case False
    then show ?thesis using len unfolding hex_def by simp
  qed
  have hx6: "\<forall>c\<in>set hex. isHexDigit c" using hx unfolding hex_def by auto
  from parseHex_six [OF hx6 l6] obtain r g b where
    p: "(case (parseInt16 (take 2 hex), parseInt16 (take 2 (drop 2 hex)),
               parseInt16 (take 2 (drop 4 hex))) of
           (Some r, Some g, Some b) \<Rightarrow>
             Some \<lparr> rgb_r = of_int r, rgb_g = of_int g, rgb_b = of_int b \<rparr>
         | _ \<Rightarrow> None)
        = Some \<lparr> rgb_r = of_int r, rgb_g = of_int g, rgb_b = of_int b \<rparr>"
    and bd: "0 \<le> r" "r \<le> 255" "0 \<le> g" "g \<le> 255" "0 \<le> b" "b \<le> 255" by blast
  have "parseHex t = Some \<lparr> rgb_r = of_int r, rgb_g = of_int g, rgb_b = of_int b \<rparr>"
    unfolding parseHex_def rf Let_def hex_def [symmetric] using l6 p by simp
  then show ?thesis using bd by simp
qed

lemma normalize_hexColor:
  assumes "isHexColor (trim x)"
  obtains rgb where "normalizeColorValueToHslTriplet env x = formatHSL (rgbToHsl rgb) False"
    "isIntIn 360 (hsl_h (rgbToHsl rgb))" "isIntIn 100 (hsl_s (rgbToHsl rgb))"
    "isIntIn 100 (hsl_l (rgbToHsl rgb))"
proof -
  from parseHex_hexColor [OF assms] obtain rgb where
    p: "parseHex (trim x) = Some rgb"
    and b: "0 \<le> rgb_r rgb" "rgb_r rgb \<le> 255" "0 \<le> rgb_g rgb" "rgb_g rgb \<le> 255"
      "0 \<le> rgb_b rgb" "rgb_b rgb \<le> 255" by blast
  have n: "normalizeColorValueToHslTriplet env x = formatHSL (rgbToHsl rgb) False"
    using parseHSL_hexColor [OF assms] p by (simp add: normalizeColorValueToHslTriplet_def)
  show ?thesis using that [OF n] rgbToHsl_bounds [OF b] by blast
qed

lemma int_digits:
  assumes "isIntIn hi x" and "hi \<le> 360"
  shows "\<forall>c\<in>set (numberToString x). isDigit c"
proof -
  obtain i where x: "x = Fin (Dec i 0)" and lo: "0 \<le> i" and up: "i \<le> hi"
    using assms(1) by (auto simp: isIntIn_def split: jsnum.splits dec.splits)
  show ?thesis
  proof (cases "i = 0")
    case True
    then show ?thesis using x by (simp add: numberToString_def norm_dec.simps isDigit_def)
  next
    case False
    then have pos: "0 < dec_val (Dec i 0)" using lo by simp
    from numberToString_pos [OF pos] obtain m' e' where
      n: "norm_dec i 0 = (m', e')" and m': "0 < m'"
      and s: "numberToString (Fin (Dec i 0)) = showPos (nat m') e'"
      and v: "(of_int m' :: rat) * 10 powi e' = dec_val (Dec i 0)" by blast
    have e': "0 \<le> e'" using norm_dec_shape [OF n] False by simp
    have "(of_int i :: rat) \<le> of_int 360" using up assms(2) by (simp only: of_int_le_iff)
    then have "(of_int m' :: rat) * 10 powi e' \<le> 360" using v by simp
    then have len: "int (length (showNat (nat m'))) + e' \<le> 21"
      by (rule digits_le_of_bound [OF m'])
    have sp: "showPos (nat m') e' = showNat (nat m') @ replicate (nat e') CHR ''0''"
      using e' len by (simp add: showPos_def Let_def)
    have z: "isDigit CHR ''0''" by (simp add: isDigit_def)
    show ?thesis unfolding x s sp using showNat_digits [of _ "nat m'"] z by auto
  qed
qed

lemma formatHSL_int_chars:
  assumes "isIntIn 360 (hsl_h hsl)" "isIntIn 100 (hsl_s hsl)" "isIntIn 100 (hsl_l hsl)"
  shows "set (formatHSL hsl False) \<subseteq> set ''0123456789 %''"
proof -
  define S where "S = set ''0123456789 %''"
  have "set ''0123456789'' \<subseteq> set ''0123456789 %''" by (simp add: subset_iff)
  then have d: "\<And>c. isDigit c \<Longrightarrow> c \<in> S" unfolding S_def isDigit_def by blast
  have sp: "CHR '' '' \<in> S" "CHR ''%'' \<in> S" unfolding S_def by simp_all
  have a: "set (numberToString (hsl_h hsl)) \<subseteq> S"
    using int_digits [OF assms(1)] d by auto
  have b: "set (numberToString (hsl_s hsl)) \<subseteq> S"
    using int_digits [OF assms(2)] d by auto
  have c: "set (numberToString (hsl_l hsl)) \<subseteq> S"
    using int_digits [OF assms(3)] d by auto
  have "set (formatHSL hsl False) \<subseteq> S"
    unfolding formatHSL_plain using a b c sp by simp
  then show ?thesis unfolding S_def .
qed

subsection \<open>The normaliser on its own output\<close>

text \<open>
  C8. The normaliser is idempotent on the inputs it accepts: for every hex colour and
  every string that \<^verbatim>\<open>parseHSL\<close> reads (the \<^verbatim>\<open>hsl(...)\<close>, \<^verbatim>\<open>rgb(...)\<close> and raw triplet
  forms among them), normalising the normalised value gives the normalised value again,
  in every document; and \<^verbatim>\<open>#ff0000\<close> and \<^verbatim>\<open>0 100% 50%\<close> both normalise to
  \<^verbatim>\<open>0 100% 50%\<close>.
\<close>

theorem normalize_idempotent:
  "(normalizerAccepts x \<longrightarrow>
      normalizeColorValueToHslTriplet env (normalizeColorValueToHslTriplet env x)
        = normalizeColorValueToHslTriplet env x)
   \<and> normalizeColorValueToHslTriplet env ''#ff0000'' = ''0 100% 50%''
   \<and> normalizeColorValueToHslTriplet env ''0 100% 50%'' = ''0 100% 50%''"
proof (intro conjI impI)
  assume a: "normalizerAccepts x"
  show "normalizeColorValueToHslTriplet env (normalizeColorValueToHslTriplet env x)
          = normalizeColorValueToHslTriplet env x"
  proof (cases "parseHSL (trim x)")
    case (Some hsl)
    then show ?thesis by (rule normalize_idempotent_hsl)
  next
    case None
    then have "isHexColor (trim x)" using a by (simp add: normalizerAccepts_def)
    from normalize_hexColor [OF this, of env] obtain rgb where
      n: "normalizeColorValueToHslTriplet env x = formatHSL (rgbToHsl rgb) False"
      and r: "isIntIn 360 (hsl_h (rgbToHsl rgb))" "isIntIn 100 (hsl_s (rgbToHsl rgb))"
        "isIntIn 100 (hsl_l (rgbToHsl rgb))" by blast
    show ?thesis unfolding n
      by (rule normalize_formatted) (use r isIntIn_inRange in blast)+
  qed
next
  show "normalizeColorValueToHslTriplet env ''#ff0000'' = ''0 100% 50%''" by code_simp
next
  show "normalizeColorValueToHslTriplet env ''0 100% 50%'' = ''0 100% 50%''" by code_simp
qed

theorem normalize_idempotent_witness:
  "normalizerAccepts ''#ff0000'' \<and> normalizerAccepts ''hsl(210.5, 40%, 98%)''
   \<and> normalizeColorValueToHslTriplet probeFails
        (normalizeColorValueToHslTriplet probeFails ''#ff0000'')
      = normalizeColorValueToHslTriplet probeFails ''#ff0000''
   \<and> normalizeColorValueToHslTriplet probeFails
        (normalizeColorValueToHslTriplet probeFails ''hsl(210.5, 40%, 98%)'')
      = ''210.5 40% 98%''"
proof -
  have a: "normalizerAccepts ''#ff0000''" "normalizerAccepts ''hsl(210.5, 40%, 98%)''"
    by code_simp+
  have v: "normalizeColorValueToHslTriplet probeFails ''hsl(210.5, 40%, 98%)'' = ''210.5 40% 98%''"
    by code_simp
  show ?thesis
    using normalize_idempotent [of "''#ff0000''" probeFails]
      normalize_idempotent [of "''hsl(210.5, 40%, 98%)''" probeFails] a v
    by simp
qed

text \<open>
  C9. Claim: every component that the normaliser emits is rounded to an integer, also for
  \<^verbatim>\<open>hsl(...)\<close> inputs with fractions. Rounding happens in \<^verbatim>\<open>rgbToHsl\<close> only: for a hex
  colour the result consists of digits, spaces and percent signs. The components of an
  \<^verbatim>\<open>hsl(...)\<close> or triplet input are clamped and printed as they are.
\<close>

theorem hex_colours_give_integers:
  assumes "isHexColor (trim x)"
  shows "set (normalizeColorValueToHslTriplet env x) \<subseteq> set ''0123456789 %''"
proof -
  from normalize_hexColor [OF assms, of env] obtain rgb where
    n: "normalizeColorValueToHslTriplet env x = formatHSL (rgbToHsl rgb) False"
    and r: "isIntIn 360 (hsl_h (rgbToHsl rgb))" "isIntIn 100 (hsl_s (rgbToHsl rgb))"
      "isIntIn 100 (hsl_l (rgbToHsl rgb))" by blast
  show ?thesis unfolding n using r by (rule formatHSL_int_chars)
qed

theorem hex_colours_give_integers_witness:
  "isHexColor (trim ''#60a5fa'')
   \<and> set (normalizeColorValueToHslTriplet probeFails ''#60a5fa'') \<subseteq> set ''0123456789 %''
   \<and> normalizeColorValueToHslTriplet probeFails ''#60a5fa'' = ''213 94% 68%''"
proof -
  have a: "isHexColor (trim ''#60a5fa'')" by code_simp
  have v: "normalizeColorValueToHslTriplet probeFails ''#60a5fa'' = ''213 94% 68%''"
    by code_simp
  show ?thesis using hex_colours_give_integers [OF a, of probeFails] a v by simp
qed

text \<open>The half degree of \<^verbatim>\<open>hsl(210.5, 40%, 98%)\<close> is kept.\<close>

theorem fractional_hsl_kept:
  "normalizeColorValueToHslTriplet probeFails ''hsl(210.5, 40%, 98%)'' = ''210.5 40% 98%''
   \<and> CHR ''.'' \<in> set (normalizeColorValueToHslTriplet probeFails ''hsl(210.5, 40%, 98%)'')"
  by code_simp

end
